theory Spec2Isabelle
  imports Complex_Main "HOL-Library.Sublist" "HOL-Library.Char_ord" "HOL-Library.List_Lexorder"
begin

section \<open>GMaps auto-order service: a shallow embedding of \<open>src/index.js\<close>\<close>

text \<open>
  The service reads active campaigns from the registry store (the lead-recycling
  database), checks the tracker store (table \<open>jobs_batch\<close> of the GMaps database) for
  existing batches, resolves the campaign's cities, expands them against the category
  catalog, and posts the queries to the dashboard in parts of at most \<open>BATCH_SIZE\<close>.

  Modelling decisions:
  \<^item> JavaScript strings are \<open>string\<close> (character lists); integers read from the stores
    are \<open>int\<close>; counts and array lengths are \<open>nat\<close>.
  \<^item> Each SQL statement is a function over the tables it reads, written clause by
    clause (FROM, JOIN, WHERE, DISTINCT, ORDER BY). Columns the statements compare are
    taken to be NOT NULL, except \<open>lead_recycling_campaign_id\<close> and \<open>campaign_name\<close> of
    \<open>jobs_batch\<close>, which older rows lack: a comparison with NULL is not true, so such
    a row does not satisfy that disjunct of the WHERE clause.
  \<^item> The dashboard is not part of this program: it is a parameter, a function from
    the request and the tracker table to the new batch id and the new tracker table,
    or \<open>None\<close> when the request fails (the exception \<open>axios.post\<close> raises).
  \<^item> Every effect the run performs is appended to a trace, in order: requests to the
    dashboard, UPDATE statements, pauses, and console lines (with the values they
    interpolate).
  \<^item> A failure of a store connection is not modelled; the pools and their release in
    the \<open>finally\<close> block are left out.
\<close>

subsection \<open>Configuration (lines 16-20)\<close>

record env =
  RECYCLING_DB_URL :: "string option"
  GMAPS_DB_URL :: "string option"
  DRY_RUN_var :: "string option"

definition BATCH_SIZE :: nat where
  "BATCH_SIZE = 2000"

text \<open>\<open>process.env.DRY_RUN === 'true'\<close>\<close>

definition DRY_RUN :: "env \<Rightarrow> bool" where
  "DRY_RUN e = (DRY_RUN_var e = Some ''true'')"

text \<open>\<open>!v\<close> for an environment variable: unset, or the empty string.\<close>

definition falsy :: "string option \<Rightarrow> bool" where
  "falsy v = (case v of None \<Rightarrow> True | Some s \<Rightarrow> s = [])"

subsection \<open>The category catalog (lines 23-85)\<close>

definition CATEGORIES :: "string list" where
  "CATEGORIES = [
    ''Accountant'', ''Attorney'', ''Auto repair shop'', ''Bank'', ''Church'',
    ''Construction company'', ''Dental clinic'', ''Doctor'', ''Funeral home'',
    ''General contractor'', ''Gym'', ''Hardware store'', ''HVAC contractor'',
    ''Insurance agency'', ''Law firm'', ''Pharmacy'', ''Place of worship'',
    ''Real estate agency'', ''School'', ''Tax preparation service'', ''Veterinarian'',
    ''Appliance store'', ''Architect'', ''Assisted living facility'', ''Auto dealer'',
    ''Auto parts store'', ''Bowling alley'', ''Car rental agency'', ''Child care agency'',
    ''Chiropractor'', ''Community center'', ''Credit union'', ''Day care center'',
    ''Driving school'', ''Electronics store'', ''Employment agency'', ''Eye care center'',
    ''Financial planner'', ''Fitness center'', ''Furniture store'', ''Golf course'',
    ''Home goods store'', ''Hospital'', ''Hotel'', ''Martial arts school'',
    ''Mattress store'', ''Medical clinic'', ''Movie theater'', ''Music school'',
    ''Nursing home'', ''Optometrist'', ''Personal trainer'', ''Physical therapy clinic'',
    ''Preschool'', ''Printing service'', ''Property management company'',
    ''Recreation center'', ''Senior center'', ''Tire shop'', ''Title company'',
    ''Travel agency'', ''Tutoring service'', ''Urgent care center'', ''Wedding venue'',
    ''Wellness center'', ''Yoga studio'', ''Addiction treatment center'',
    ''After school program'', ''Allergist'', ''Art gallery'', ''Art school'',
    ''Audiologist'', ''Banquet hall'', ''Building materials store'',
    ''Business management consultant'', ''Cardiologist'', ''Co-working space'', ''College'',
    ''Commercial printer'', ''Computer consultant'', ''Computer support and services'',
    ''Consultant'', ''Country club'', ''Dance school'', ''Department store'',
    ''Dermatologist'', ''Engineer'', ''Equipment rental agency'', ''Event venue'',
    ''Gastroenterologist'', ''Gymnastics center'', ''Hospice'', ''Indoor playground'',
    ''Investment company'', ''Laboratory'', ''Language school'', ''Loan agency'',
    ''Machine shop'', ''Mental health clinic'', ''Mortgage lender'', ''Motorcycle dealer'',
    ''Neurologist'', ''Non-profit organization'', ''Notary public'', ''Nursing agency'',
    ''Nutritionist'', ''Office furniture store'', ''Ophthalmologist'',
    ''Orthopedic clinic'', ''Osteopath'', ''Pediatrician'', ''Plumbing supply store'',
    ''Podiatrist'', ''Private investigator'', ''Rehabilitation center'', ''RV dealer'',
    ''Sports club'', ''Surgeon'', ''Swimming pool'', ''Technical school'', ''Truck dealer'',
    ''Truck repair shop'', ''University'', ''Urologist'', ''Vocational school'',
    ''Warehouse'', ''Aerospace company'', ''Association or organization'',
    ''Automation company'', ''Biotechnology company'', ''Blood bank'', ''Bottling company'',
    ''Business school'', ''Call center'', ''Car inspection station'',
    ''Chamber of commerce'', ''Chemical wholesaler'', ''Computer security service'',
    ''Computer training school'', ''Conference center'', ''Convention center'',
    ''Corporate office'', ''Council'', ''Credit counseling service'', ''Culinary school'',
    ''Data recovery service'', ''Dental laboratory'', ''Diagnostic center'',
    ''Dialysis center'', ''Distribution service'', ''Education center'',
    ''Electric motor repair shop'', ''Electrical supply store'', ''Factory'',
    ''Farm equipment supplier'', ''Fertility clinic'', ''Fitness equipment store'',
    ''Flight school'', ''Food processing equipment'', ''Freight forwarding service'',
    ''Geriatrician'', ''Industrial chemicals wholesaler'', ''Industrial design company'',
    ''Industrial equipment supplier'', ''Insurance company'', ''Labor union'',
    ''Logistics service'', ''Management school'', ''Manufacturer'',
    ''Medical diagnostic imaging center'', ''Medical laboratory'', ''Metal fabricator'',
    ''Metal supplier'', ''MRI center'', ''Office space rental agency'', ''Oncologist'',
    ''Otolaryngologist'', ''Outlet store'', ''Outpatient surgery center'',
    ''Packaging supply store'', ''Pain management physician'', ''Payroll service'',
    ''Pharmaceutical company'', ''Plastic fabrication company'', ''Plastic surgery clinic'',
    ''Printing equipment supplier'', ''Psychiatric hospital'', ''Radiology center'',
    ''Reproductive health clinic'', ''Safety equipment supplier'',
    ''Scientific equipment supplier'', ''Shipping company'', ''Shopping mall'',
    ''Showroom'', ''Software company'', ''Special education school'', ''Sports complex'',
    ''Sports medicine clinic'', ''Steel distributor'', ''Steel fabricator'',
    ''Student housing center'', ''Surgical center'',
    ''Telecommunications service provider'', ''Tennis court'', ''Textile mill'',
    ''Tool store'', ''Training centre'', ''Veterinary emergency hospital'',
    ''Welding supply store'', ''Wholesaler'', (''Women'' @ [CHR 0x27] @ ''s health clinic'')]"

subsection \<open>SQL pattern matching\<close>

text \<open>
  \<open>like_match t p\<close> is PostgreSQL's \<open>t LIKE p\<close>: \<open>%\<close> matches any sequence of
  characters, \<open>_\<close> any one character, and a backslash (the default escape character)
  makes the next pattern character match itself only. A pattern that ends in a lone
  backslash is an error in PostgreSQL; here it matches nothing, and
  \<open>escapes_closed\<close> below says which patterns are free of it.
\<close>

fun like_match :: "string \<Rightarrow> string \<Rightarrow> bool" where
  "like_match t [] = (t = [])"
| "like_match t (p # ps) =
     (if p = CHR ''%'' then
        (like_match t ps \<or> (case t of [] \<Rightarrow> False | x # t' \<Rightarrow> like_match t' (p # ps)))
      else if p = CHR ''_'' then
        (case t of [] \<Rightarrow> False | x # t' \<Rightarrow> like_match t' ps)
      else if p = CHR 0x5C then
        (case ps of [] \<Rightarrow> False
         | q # qs \<Rightarrow> (case t of [] \<Rightarrow> False | x # t' \<Rightarrow> x = q \<and> like_match t' qs))
      else
        (case t of [] \<Rightarrow> False | x # t' \<Rightarrow> x = p \<and> like_match t' ps))"

declare like_match.simps(2) [simp del]

fun escapes_closed :: "string \<Rightarrow> bool" where
  "escapes_closed [] = True"
| "escapes_closed [p] = (p \<noteq> CHR 0x5C)"
| "escapes_closed (p # q # ps) =
     (if p = CHR 0x5C then escapes_closed ps else escapes_closed (q # ps))"

text \<open>Case folding of the ASCII letters, as \<open>ILIKE\<close> applies it to both sides.\<close>

definition lower_char :: "char \<Rightarrow> char" where
  "lower_char c =
     (let n = (of_char c :: nat) in if 65 \<le> n \<and> n \<le> 90 then char_of (n + 32) else c)"

definition ilike :: "string \<Rightarrow> string \<Rightarrow> bool" where
  "ilike t p = like_match (map lower_char t) (map lower_char p)"

subsection \<open>The registry store\<close>

record instant_campaign =
  ic_id :: int
  ic_campaign_name :: string
  ic_is_active :: bool
  ic_client_id :: int

record campaign_city =
  cc_campaign_id :: int
  cc_city_id :: int

record client_city_claim =
  ccc_client_id :: int
  ccc_city_id :: int

record city =
  c_id :: int
  c_city_name :: string
  c_state_code :: string

record registry =
  instant_campaigns :: "instant_campaign list"
  campaign_cities :: "campaign_city list"
  client_city_claims :: "client_city_claim list"
  cities :: "city list"

text \<open>A row of the first query: \<open>{ id, campaign_name }\<close>.\<close>

record campaign =
  campaign_id :: int
  campaign_name :: string

text \<open>A row of the city query: \<open>{ city_name, state_code }\<close>.\<close>

record city_row =
  city_name :: string
  state_code :: string

text \<open>
  Lines 110-116: the active campaigns whose name contains \<open>(GMaps)\<close> in any case,
  ordered by id.
\<close>

definition select_campaigns :: "registry \<Rightarrow> campaign list" where
  "select_campaigns reg =
     map (\<lambda>ic. \<lparr>campaign_id = ic_id ic, campaign_name = ic_campaign_name ic\<rparr>)
       (sort_key ic_id
         (filter (\<lambda>ic. ilike (ic_campaign_name ic) ''%(GMaps)%'' \<and> ic_is_active ic)
           (instant_campaigns reg)))"

text \<open>
  Lines 145-162. The inner SELECTs give the city ids assigned to the campaign and the
  city ids claimed by the campaign's client; UNION joins the two and removes
  duplicates; the ids are joined with \<open>cities\<close>, county rows are dropped, DISTINCT
  removes equal (city_name, state_code) pairs, and the rows are ordered by city name
  (bytewise here; rows with equal names come in the order of their state codes, as the
  sort behind DISTINCT leaves them).
\<close>

definition assigned_city_ids :: "registry \<Rightarrow> int \<Rightarrow> int list" where
  "assigned_city_ids reg cid =
     [cc_city_id cc. cc \<leftarrow> campaign_cities reg, cc_campaign_id cc = cid]"

definition claimed_city_ids :: "registry \<Rightarrow> int \<Rightarrow> int list" where
  "claimed_city_ids reg cid =
     [ccc_city_id ccc. ccc \<leftarrow> client_city_claims reg, ic \<leftarrow> instant_campaigns reg,
        ic_client_id ic = ccc_client_id ccc, ic_id ic = cid]"

definition resolve_cities :: "registry \<Rightarrow> int \<Rightarrow> city_row list" where
  "resolve_cities reg cid =
     (let combined = remdups (assigned_city_ids reg cid @ claimed_city_ids reg cid);
          joined = [\<lparr>city_name = c_city_name c, state_code = c_state_code c\<rparr>.
                      x \<leftarrow> combined, c \<leftarrow> cities reg, c_id c = x];
          kept = filter (\<lambda>r. \<not> ilike (city_name r) ''%county%'') joined
      in sort_key city_name (sort_key state_code (remdups kept)))"

subsection \<open>The tracker store\<close>

record batch_row =
  jb_batch_id :: nat
  jb_name :: string
  jb_campaign_name :: "string option"
  jb_lead_recycling_campaign_id :: "int option"

text \<open>Lines 129-135: the WHERE clause of the existing-work query, and its COUNT.\<close>

definition existing_where :: "campaign \<Rightarrow> batch_row \<Rightarrow> bool" where
  "existing_where c b =
     (jb_lead_recycling_campaign_id b = Some (campaign_id c)
      \<or> jb_campaign_name b = Some (campaign_name c)
      \<or> like_match (jb_name b) (campaign_name c @ ''%''))"

definition existing_cnt :: "batch_row list \<Rightarrow> campaign \<Rightarrow> nat" where
  "existing_cnt tbl c = length (filter (existing_where c) tbl)"

text \<open>Lines 217-220: \<open>UPDATE jobs_batch SET campaign_name = $1 WHERE batch_id = $2\<close>.\<close>

definition update_campaign_name :: "string \<Rightarrow> nat \<Rightarrow> batch_row list \<Rightarrow> batch_row list" where
  "update_campaign_name baseName batchId tbl =
     map (\<lambda>b. if jb_batch_id b = batchId then b\<lparr>jb_campaign_name := Some baseName\<rparr> else b) tbl"

subsection \<open>The query planner (lines 173-184)\<close>

text \<open>The inner loop: one query per category, pushed in catalog order.\<close>

fun push_categories :: "string \<Rightarrow> string list \<Rightarrow> string list \<Rightarrow> string list" where
  "push_categories location [] queries = queries"
| "push_categories location (cat # cats) queries =
     push_categories location cats (queries @ [cat @ '' in '' @ location])"

text \<open>\<open>Set.prototype.add\<close>: a JavaScript set keeps insertion order.\<close>

definition set_add :: "string list \<Rightarrow> string \<Rightarrow> string list" where
  "set_add s x = (if x \<in> set s then s else s @ [x])"

text \<open>The outer loop over \<open>allCities\<close>, with the accumulators \<open>queries\<close> and \<open>targetStates\<close>.\<close>

fun build_queries :: "city_row list \<Rightarrow> string list \<times> string list \<Rightarrow> string list \<times> string list" where
  "build_queries [] acc = acc"
| "build_queries (city # rest) (queries, targetStates) =
     (let location = city_name city @ '', '' @ state_code city
      in build_queries rest
           (push_categories location CATEGORIES queries, set_add targetStates (state_code city)))"

text \<open>The two arrays after the loop, started from the empty array and the empty set.\<close>

definition plan_queries :: "city_row list \<Rightarrow> string list" where
  "plan_queries allCities = fst (build_queries allCities ([], []))"

definition plan_states :: "city_row list \<Rightarrow> string list" where
  "plan_states allCities = snd (build_queries allCities ([], []))"

text \<open>
  \<open>Math.ceil(queries.length / BATCH_SIZE)\<close>. The division is exact on the reals; a
  double represents the quotient of an array length by 2000 closely enough for the
  ceiling to be the same.
\<close>

definition totalParts :: "nat \<Rightarrow> nat" where
  "totalParts n = nat \<lceil>real n / real BATCH_SIZE\<rceil>"

text \<open>\<open>Array.prototype.slice(start, end)\<close> for \<open>0 \<le> start\<close>.\<close>

definition slice :: "'a list \<Rightarrow> nat \<Rightarrow> nat \<Rightarrow> 'a list" where
  "slice xs start end' = take (end' - start) (drop start xs)"

definition chunk :: "string list \<Rightarrow> nat \<Rightarrow> string list" where
  "chunk queries i = slice queries (i * BATCH_SIZE) ((i + 1) * BATCH_SIZE)"

subsection \<open>Requests, effects and the state of a run\<close>

record payload =
  p_name :: string
  p_queries :: "string list"
  p_autoImport :: bool
  p_targetStates :: "string list"
  p_leadRecyclingCampaignId :: int

type_synonym dashboard = "payload \<Rightarrow> batch_row list \<Rightarrow> (nat \<times> batch_row list) option"

datatype log_line =
    LogFound nat
  | LogChecking string int
  | LogSkipExisting nat
  | LogSkipNoCities
  | LogCities "city_row list"
  | LogPlan nat nat "string list"
  | LogDryRun
  | LogCreated string nat nat
  | LogDone nat nat

datatype effect =
    Post payload
  | UpdateCampaignName string nat
  | Sleep nat
  | Console log_line

datatype error = MissingEnv | SubmissionFailed

record run_state =
  jobs_batch :: "batch_row list"
  created :: nat
  skipped :: nat
  trace :: "effect list"

definition emit :: "effect \<Rightarrow> run_state \<Rightarrow> run_state" where
  "emit e st = st\<lparr>trace := trace st @ [e]\<rparr>"

text \<open>Decimal digits of a number, as a template literal prints it.\<close>

fun show_nat :: "nat \<Rightarrow> string" where
  "show_nat n =
     (if n < 10 then [''0123456789'' ! n]
      else show_nat (n div 10) @ [''0123456789'' ! (n mod 10)])"

subsection \<open>The submitter (lines 194-230)\<close>

definition batchName :: "campaign \<Rightarrow> nat \<Rightarrow> nat \<Rightarrow> string" where
  "batchName c parts i =
     (if parts > 1 then campaign_name c @ '' Part '' @ show_nat (i + 1) else campaign_name c)"

definition make_payload :: "campaign \<Rightarrow> string list \<Rightarrow> string list \<Rightarrow> nat \<Rightarrow> nat \<Rightarrow> payload" where
  "make_payload c queries statesArray parts i =
     \<lparr>p_name = batchName c parts i, p_queries = chunk queries i, p_autoImport = True,
      p_targetStates = statesArray, p_leadRecyclingCampaignId = campaign_id c\<rparr>"

text \<open>
  The payloads the loop builds for a campaign with the resolved cities \<open>allCities\<close>,
  one per part, in order.
\<close>

definition batch_plans :: "campaign \<Rightarrow> city_row list \<Rightarrow> payload list" where
  "batch_plans c allCities =
     map (make_payload c (plan_queries allCities) (plan_states allCities)
            (totalParts (length (plan_queries allCities))))
       [0..<totalParts (length (plan_queries allCities))]"

text \<open>
  One iteration of the loop over the parts: the request, the correcting UPDATE when
  there are several parts, the counter, and the pause before the next part.
\<close>

definition submit_part ::
  "dashboard \<Rightarrow> campaign \<Rightarrow> string list \<Rightarrow> string list \<Rightarrow> nat \<Rightarrow> nat \<Rightarrow> run_state
     \<Rightarrow> (error \<times> run_state) + run_state" where
  "submit_part post c queries statesArray parts i st =
     (let pl = make_payload c queries statesArray parts i;
          st1 = emit (Post pl) st
      in case post pl (jobs_batch st1) of
           None \<Rightarrow> Inl (SubmissionFailed, st1)
         | Some (batchId, tbl) \<Rightarrow>
             (let st2 = st1\<lparr>jobs_batch := tbl\<rparr>;
                  st3 = (if parts > 1
                         then emit (UpdateCampaignName (campaign_name c) batchId)
                                (st2\<lparr>jobs_batch :=
                                   update_campaign_name (campaign_name c) batchId (jobs_batch st2)\<rparr>)
                         else st2);
                  st4 = emit (Console (LogCreated (p_name pl) batchId (length (p_queries pl)))) st3;
                  st5 = st4\<lparr>created := created st4 + 1\<rparr>
              in Inr (if i < parts - 1 then emit (Sleep 1000) st5 else st5)))"

function submit_parts ::
  "dashboard \<Rightarrow> campaign \<Rightarrow> string list \<Rightarrow> string list \<Rightarrow> nat \<Rightarrow> nat \<Rightarrow> run_state
     \<Rightarrow> (error \<times> run_state) + run_state" where
  "submit_parts post c queries statesArray parts i st =
     (if i < parts then
        (case submit_part post c queries statesArray parts i st of
           Inl err \<Rightarrow> Inl err
         | Inr st' \<Rightarrow> submit_parts post c queries statesArray parts (i + 1) st')
      else Inr st)"
  by pat_completeness auto
termination
  by (relation "measure (\<lambda>(post, c, queries, statesArray, parts, i, st). parts - i)") auto

declare submit_parts.simps [simp del]
declare show_nat.simps [simp del]

subsection \<open>One campaign (lines 123-231) and the run (lines 99-238)\<close>

definition process_campaign ::
  "dashboard \<Rightarrow> bool \<Rightarrow> registry \<Rightarrow> campaign \<Rightarrow> run_state \<Rightarrow> (error \<times> run_state) + run_state" where
  "process_campaign post dry reg c st =
     (let st1 = emit (Console (LogChecking (campaign_name c) (campaign_id c))) st;
          cnt = existing_cnt (jobs_batch st1) c
      in if cnt > 0 then
           Inr ((emit (Console (LogSkipExisting cnt)) st1)\<lparr>skipped := skipped st1 + 1\<rparr>)
         else
           (let allCities = resolve_cities reg (campaign_id c)
            in if length allCities = 0 then
                 Inr ((emit (Console LogSkipNoCities) st1)\<lparr>skipped := skipped st1 + 1\<rparr>)
               else
                 (let st2 = emit (Console (LogCities allCities)) st1;
                      queries = plan_queries allCities;
                      targetStates = plan_states allCities;
                      parts = totalParts (length queries);
                      st3 = emit (Console (LogPlan (length queries) parts targetStates)) st2
                  in if dry then Inr (emit (Console LogDryRun) st3)
                     else submit_parts post c queries targetStates parts 0 st3)))"

fun run_campaigns ::
  "dashboard \<Rightarrow> bool \<Rightarrow> registry \<Rightarrow> campaign list \<Rightarrow> run_state \<Rightarrow> (error \<times> run_state) + run_state" where
  "run_campaigns post dry reg [] st = Inr st"
| "run_campaigns post dry reg (c # cs) st =
     (case process_campaign post dry reg c st of
        Inl err \<Rightarrow> Inl err
      | Inr st' \<Rightarrow> run_campaigns post dry reg cs st')"

definition run :: "env \<Rightarrow> dashboard \<Rightarrow> registry \<Rightarrow> batch_row list \<Rightarrow> (error \<times> run_state) + run_state" where
  "run e post reg tbl =
     (let st0 = \<lparr>jobs_batch = tbl, created = 0, skipped = 0, trace = []\<rparr>
      in if falsy (RECYCLING_DB_URL e) \<or> falsy (GMAPS_DB_URL e) then Inl (MissingEnv, st0)
         else
           (let campaigns = select_campaigns reg;
                st1 = emit (Console (LogFound (length campaigns))) st0
            in case run_campaigns post (DRY_RUN e) reg campaigns st1 of
                 Inl err \<Rightarrow> Inl err
               | Inr st \<Rightarrow> Inr (emit (Console (LogDone (created st) (skipped st))) st)))"

subsection \<open>Observations of a trace, and the dashboard's contract\<close>

text \<open>The requests sent to the dashboard and the UPDATE statements issued, in order.\<close>

definition posts_of :: "effect list \<Rightarrow> payload list" where
  "posts_of tr = concat (map (\<lambda>e. case e of Post pl \<Rightarrow> [pl] | _ \<Rightarrow> []) tr)"

definition updates_of :: "effect list \<Rightarrow> (string \<times> nat) list" where
  "updates_of tr =
     concat (map (\<lambda>e. case e of UpdateCampaignName n b \<Rightarrow> [(n, b)] | _ \<Rightarrow> []) tr)"

text \<open>
  What the program relies on when it passes \<open>leadRecyclingCampaignId\<close> and later updates
  the row \<open>WHERE batch_id = data.batchId\<close>: a successful request adds one row to
  \<open>jobs_batch\<close>, under a batch id no other row has, linked to the campaign of the
  request; the id is the one the response carries. The name columns of the new row
  are left open.
\<close>

definition inserts_batch :: "dashboard \<Rightarrow> bool" where
  "inserts_batch post =
     (\<forall>pl tbl batchId tbl'. post pl tbl = Some (batchId, tbl') \<longrightarrow>
        batchId \<notin> jb_batch_id ` set tbl
        \<and> (\<exists>row. tbl' = tbl @ [row] \<and> jb_batch_id row = batchId
               \<and> jb_lead_recycling_campaign_id row = Some (p_leadRecyclingCampaignId pl)))"

subsection \<open>Sample data\<close>

text \<open>
  A dashboard that numbers batches upwards and stores the submitted name in both name
  columns; it never fails.
\<close>

definition sample_dashboard :: dashboard where
  "sample_dashboard pl tbl =
     (let batchId = Suc (Max (insert 0 (jb_batch_id ` set tbl)))
      in Some (batchId,
           tbl @ [\<lparr>jb_batch_id = batchId, jb_name = p_name pl, jb_campaign_name = Some (p_name pl),
                    jb_lead_recycling_campaign_id = Some (p_leadRecyclingCampaignId pl)\<rparr>]))"

text \<open>Campaigns, registries and tracker rows used as concrete inputs.\<close>

definition acme :: campaign where
  "acme = \<lparr>campaign_id = 1, campaign_name = ''Acme (GMaps)''\<rparr>"

definition fresh_state :: "batch_row list \<Rightarrow> run_state" where
  "fresh_state tbl = \<lparr>jobs_batch = tbl, created = 0, skipped = 0, trace = []\<rparr>"

definition fallback_registry :: registry where
  "fallback_registry =
     \<lparr>instant_campaigns =
        [\<lparr>ic_id = 1, ic_campaign_name = ''Acme (GMaps)'', ic_is_active = True, ic_client_id = 10\<rparr>],
      campaign_cities = [\<lparr>cc_campaign_id = 1, cc_city_id = 1\<rparr>],
      client_city_claims = [\<lparr>ccc_client_id = 10, ccc_city_id = 2\<rparr>],
      cities = [\<lparr>c_id = 1, c_city_name = ''Austin'', c_state_code = ''TX''\<rparr>,
                \<lparr>c_id = 2, c_city_name = ''Dallas'', c_state_code = ''TX''\<rparr>]\<rparr>"

definition case_registry :: registry where
  "case_registry =
     \<lparr>instant_campaigns =
        [\<lparr>ic_id = 1, ic_campaign_name = ''Acme (GMaps)'', ic_is_active = True, ic_client_id = 10\<rparr>],
      campaign_cities = [\<lparr>cc_campaign_id = 1, cc_city_id = 1\<rparr>, \<lparr>cc_campaign_id = 1, cc_city_id = 2\<rparr>,
                         \<lparr>cc_campaign_id = 1, cc_city_id = 3\<rparr>],
      client_city_claims = [],
      cities = [\<lparr>c_id = 1, c_city_name = ''Austin'', c_state_code = ''TX''\<rparr>,
                \<lparr>c_id = 2, c_city_name = ''AUSTIN'', c_state_code = ''TX''\<rparr>,
                \<lparr>c_id = 3, c_city_name = ''Travis County'', c_state_code = ''TX''\<rparr>]\<rparr>"

definition no_city_registry :: registry where
  "no_city_registry =
     \<lparr>instant_campaigns =
        [\<lparr>ic_id = 1, ic_campaign_name = ''Acme (GMaps)'', ic_is_active = True, ic_client_id = 10\<rparr>],
      campaign_cities = [], client_city_claims = [],
      cities = [\<lparr>c_id = 1, c_city_name = ''Austin'', c_state_code = ''TX''\<rparr>]\<rparr>"

definition many_city_registry :: registry where
  "many_city_registry =
     \<lparr>instant_campaigns =
        [\<lparr>ic_id = 1, ic_campaign_name = ''Acme (GMaps)'', ic_is_active = True, ic_client_id = 10\<rparr>],
      campaign_cities = map (\<lambda>i. \<lparr>cc_campaign_id = 1, cc_city_id = int i\<rparr>) [0..<22],
      client_city_claims = [],
      cities = map (\<lambda>i. \<lparr>c_id = int i, c_city_name = ''City '' @ show_nat i, c_state_code = ''TX''\<rparr>)
                 [0..<22]\<rparr>"

definition backslash_campaign :: campaign where
  "backslash_campaign = \<lparr>campaign_id = 1, campaign_name = ''A'' @ [CHR 0x5C] @ ''B (GMaps)''\<rparr>"

definition backslash_registry :: registry where
  "backslash_registry =
     \<lparr>instant_campaigns =
        [\<lparr>ic_id = 1, ic_campaign_name = ''A'' @ [CHR 0x5C] @ ''B (GMaps)'', ic_is_active = True,
          ic_client_id = 10\<rparr>],
      campaign_cities = [\<lparr>cc_campaign_id = 1, cc_city_id = 1\<rparr>],
      client_city_claims = [],
      cities = [\<lparr>c_id = 1, c_city_name = ''Austin'', c_state_code = ''TX''\<rparr>]\<rparr>"

definition legacy_batch :: batch_row where
  "legacy_batch =
     \<lparr>jb_batch_id = 1, jb_name = ''A'' @ [CHR 0x5C] @ ''B (GMaps) Part 1'',
      jb_campaign_name = None, jb_lead_recycling_campaign_id = None\<rparr>"

definition percent_campaign :: campaign where
  "percent_campaign = \<lparr>campaign_id = 1, campaign_name = ''100% Clean (GMaps)''\<rparr>"

definition unrelated_batch :: batch_row where
  "unrelated_batch =
     \<lparr>jb_batch_id = 1, jb_name = ''100 Percent Clean (GMaps)'',
      jb_campaign_name = None, jb_lead_recycling_campaign_id = None\<rparr>"

definition underscore_campaign :: campaign where
  "underscore_campaign = \<lparr>campaign_id = 2, campaign_name = ''A_B (GMaps)''\<rparr>"

definition other_batch :: batch_row where
  "other_batch =
     \<lparr>jb_batch_id = 2, jb_name = ''A-B (GMaps) Part 1'',
      jb_campaign_name = None, jb_lead_recycling_campaign_id = None\<rparr>"

text \<open>Environments with both connection strings, without and with the dry-run switch.\<close>

definition ok_env :: env where
  "ok_env = \<lparr>RECYCLING_DB_URL = Some ''postgres://registry'', GMAPS_DB_URL = Some ''postgres://tracker'',
             DRY_RUN_var = None\<rparr>"

definition dry_env :: env where
  "dry_env = \<lparr>RECYCLING_DB_URL = Some ''postgres://registry'', GMAPS_DB_URL = Some ''postgres://tracker'',
              DRY_RUN_var = Some ''true''\<rparr>"

definition unset_env :: env where
  "unset_env = \<lparr>RECYCLING_DB_URL = Some ''postgres://registry'', GMAPS_DB_URL = None,
                DRY_RUN_var = None\<rparr>"

definition mixed_registry :: registry where
  "mixed_registry =
     \<lparr>instant_campaigns =
        [\<lparr>ic_id = 3, ic_campaign_name = ''Zed (gmaps)'', ic_is_active = True, ic_client_id = 30\<rparr>,
         \<lparr>ic_id = 2, ic_campaign_name = ''Old (GMaps)'', ic_is_active = False, ic_client_id = 20\<rparr>,
         \<lparr>ic_id = 4, ic_campaign_name = ''Email only'', ic_is_active = True, ic_client_id = 40\<rparr>,
         \<lparr>ic_id = 1, ic_campaign_name = ''Acme (GMaps)'', ic_is_active = True, ic_client_id = 10\<rparr>],
      campaign_cities = [], client_city_claims = [], cities = []\<rparr>"

definition part_batch :: batch_row where
  "part_batch =
     \<lparr>jb_batch_id = 5, jb_name = ''Acme (GMaps) Part 1'', jb_campaign_name = None,
      jb_lead_recycling_campaign_id = None\<rparr>"

subsection \<open>Vocabulary of the properties\<close>

text \<open>A literal without the characters LIKE treats specially.\<close>

definition plain :: "string \<Rightarrow> bool" where
  "plain s = (CHR ''%'' \<notin> set s \<and> CHR ''_'' \<notin> set s \<and> CHR 0x5C \<notin> set s)"

text \<open>
  What planning decides and prints for a campaign against a tracker table: whether the
  campaign is skipped, and the console lines of the check, the resolved cities, the
  number of queries and the number of parts.
\<close>

definition planned_skip :: "registry \<Rightarrow> batch_row list \<Rightarrow> campaign \<Rightarrow> bool" where
  "planned_skip reg tbl c = (0 < existing_cnt tbl c \<or> resolve_cities reg (campaign_id c) = [])"

definition planning_report :: "registry \<Rightarrow> batch_row list \<Rightarrow> campaign \<Rightarrow> log_line list" where
  "planning_report reg tbl c =
     LogChecking (campaign_name c) (campaign_id c) #
       (if 0 < existing_cnt tbl c then [LogSkipExisting (existing_cnt tbl c)]
        else if resolve_cities reg (campaign_id c) = [] then [LogSkipNoCities]
        else (let allCities = resolve_cities reg (campaign_id c)
              in [LogCities allCities,
                  LogPlan (length (plan_queries allCities))
                    (totalParts (length (plan_queries allCities))) (plan_states allCities),
                  LogDryRun]))"


section \<open>Properties\<close>

subsection \<open>SQL patterns\<close>

lemma escapes_closed_percent: "escapes_closed (s @ ''%'')"
  by (induction s rule: escapes_closed.induct) auto

lemma like_percent:
  "like_match t (CHR ''%'' # ps) \<longleftrightarrow>
     like_match t ps \<or> (case t of [] \<Rightarrow> False | x # t' \<Rightarrow> like_match t' (CHR ''%'' # ps))"
  by (simp add: like_match.simps(2))

lemma like_underscore:
  "like_match t (CHR ''_'' # ps) \<longleftrightarrow> (case t of [] \<Rightarrow> False | x # t' \<Rightarrow> like_match t' ps)"
  by (simp add: like_match.simps(2))

lemma like_escape:
  "like_match t (CHR 0x5C # q # qs) \<longleftrightarrow>
     (case t of [] \<Rightarrow> False | x # t' \<Rightarrow> x = q \<and> like_match t' qs)"
  by (simp add: like_match.simps(2))

lemma like_literal:
  "p \<noteq> CHR ''%'' \<Longrightarrow> p \<noteq> CHR ''_'' \<Longrightarrow> p \<noteq> CHR 0x5C \<Longrightarrow>
     like_match t (p # ps) \<longleftrightarrow> (case t of [] \<Rightarrow> False | x # t' \<Rightarrow> x = p \<and> like_match t' ps)"
  by (simp add: like_match.simps(2))

lemma like_match_any: "like_match t ''%''"
  by (induction t) (simp_all add: like_percent)

lemma like_match_percent:
  "like_match t (CHR ''%'' # ps) \<longleftrightarrow> (\<exists>pre suf. t = pre @ suf \<and> like_match suf ps)"
proof (induction t)
  case Nil
  then show ?case by (simp add: like_percent)
next
  case (Cons x t)
  have "like_match (x # t) (CHR ''%'' # ps)
      \<longleftrightarrow> like_match (x # t) ps \<or> like_match t (CHR ''%'' # ps)"
    by (simp add: like_percent)
  also have "\<dots> \<longleftrightarrow> like_match (x # t) ps \<or> (\<exists>pre suf. t = pre @ suf \<and> like_match suf ps)"
    by (simp only: Cons.IH)
  also have "\<dots> \<longleftrightarrow> (\<exists>pre suf. x # t = pre @ suf \<and> like_match suf ps)"
    by (auto simp: Cons_eq_append_conv)
  finally show ?case .
qed

lemma like_match_plain_prefix:
  "plain lit \<Longrightarrow> like_match t (lit @ ''%'') \<longleftrightarrow> prefix lit t"
proof (induction lit arbitrary: t)
  case Nil
  then show ?case by (simp add: like_match_any)
next
  case (Cons p lit)
  then have "plain lit" and "p \<noteq> CHR ''%''" and "p \<noteq> CHR ''_''" and "p \<noteq> CHR 0x5C"
    by (auto simp: plain_def)
  with Cons.IH show ?case
    by (cases t) (auto simp add: like_literal)
qed

lemma like_match_contains:
  assumes "plain lit"
  shows "like_match t (CHR ''%'' # lit @ ''%'') \<longleftrightarrow> sublist lit t"
proof -
  have "like_match t (CHR ''%'' # lit @ ''%'') \<longleftrightarrow> (\<exists>pre suf. t = pre @ suf \<and> prefix lit suf)"
    by (simp only: like_match_percent like_match_plain_prefix[OF assms])
  also have "\<dots> \<longleftrightarrow> sublist lit t"
    by (auto simp: sublist_def prefix_def)
  finally show ?thesis .
qed

lemma lower_county: "map lower_char ''%county%'' = ''%county%''"
  by (simp add: lower_char_def)

lemma ilike_county: "ilike n ''%county%'' \<longleftrightarrow> sublist ''county'' (map lower_char n)"
proof -
  have "plain ''county''" by (simp add: plain_def)
  from like_match_contains[OF this, of "map lower_char n"] show ?thesis
    unfolding ilike_def lower_county by simp
qed

lemma like_match_prefix_no_escape:
  "CHR 0x5C \<notin> set s \<Longrightarrow> like_match (s @ t) (s @ ''%'')"
proof (induction s)
  case Nil
  then show ?case by (simp add: like_match_any)
next
  case (Cons p s)
  then have IH: "like_match (s @ t) (s @ ''%'')" and "p \<noteq> CHR 0x5C" by auto
  show ?case
  proof (cases "p = CHR ''%''")
    case True
    have "like_match (s @ t) (CHR ''%'' # s @ ''%'')"
      using IH by (simp add: like_percent)
    then show ?thesis using True by (simp add: like_percent)
  next
    case False
    show ?thesis
    proof (cases "p = CHR ''_''")
      case True
      then show ?thesis using IH by (simp add: like_underscore)
    next
      case False
      with \<open>p \<noteq> CHR ''%''\<close> \<open>p \<noteq> CHR 0x5C\<close> IH show ?thesis by (simp add: like_literal)
    qed
  qed
qed

subsection \<open>The query planner\<close>

lemma length_CATEGORIES: "length CATEGORIES = 211"
  by (simp add: CATEGORIES_def)

lemma push_categories_append:
  "push_categories location cats queries = queries @ map (\<lambda>cat. cat @ '' in '' @ location) cats"
  by (induction cats arbitrary: queries) auto

lemma fst_build_queries:
  "fst (build_queries allCities (queries, ts)) =
     queries @ concat (map (\<lambda>city. map (\<lambda>cat. cat @ '' in '' @ city_name city @ '', '' @ state_code city) CATEGORIES) allCities)"
  by (induction allCities arbitrary: queries ts) (auto simp: push_categories_append Let_def)

lemma plan_queries_concat:
  "plan_queries allCities =
     concat (map (\<lambda>city. map (\<lambda>cat. cat @ '' in '' @ city_name city @ '', '' @ state_code city) CATEGORIES) allCities)"
  by (simp add: plan_queries_def fst_build_queries)

lemma length_plan_queries:
  "length (plan_queries allCities) = length allCities * length CATEGORIES"
  by (simp add: plan_queries_concat length_concat comp_def sum_list_triv)

lemma nth_concat_uniform:
  "(\<And>x. x \<in> set xs \<Longrightarrow> length (f x) = k) \<Longrightarrow> t < length xs \<Longrightarrow> j < k \<Longrightarrow>
     concat (map f xs) ! (t * k + j) = f (xs ! t) ! j"
proof (induction xs arbitrary: t)
  case Nil
  then show ?case by simp
next
  case (Cons x xs)
  show ?case
  proof (cases t)
    case 0
    with Cons.prems show ?thesis by (simp add: nth_append)
  next
    case (Suc t')
    with Cons.prems have "concat (map f xs) ! (t' * k + j) = f (xs ! t') ! j"
      by (intro Cons.IH) auto
    moreover have "length (f x) = k" using Cons.prems by simp
    ultimately show ?thesis using Suc by (simp add: nth_append)
  qed
qed

lemma nth_plan_queries:
  assumes "t < length allCities" and "k < length CATEGORIES"
  shows "plan_queries allCities ! (t * length CATEGORIES + k) =
           CATEGORIES ! k @ '' in '' @ city_name (allCities ! t) @ '', '' @ state_code (allCities ! t)"
proof -
  let ?f = "\<lambda>city. map (\<lambda>cat. cat @ '' in '' @ city_name city @ '', '' @ state_code city) CATEGORIES"
  have "concat (map ?f allCities) ! (t * length CATEGORIES + k) = ?f (allCities ! t) ! k"
    using assms by (intro nth_concat_uniform) auto
  with assms show ?thesis by (simp add: plan_queries_concat)
qed

lemma totalParts_div: "totalParts n = (n + 1999) div 2000"
proof -
  have "\<lceil>real n / real BATCH_SIZE\<rceil> = \<lceil>of_int (int n) / (of_int 2000 :: real)\<rceil>"
    by (simp add: BATCH_SIZE_def)
  also have "\<dots> = - (- int n div 2000)"
    by (rule ceiling_divide_eq_div)
  finally have "totalParts n = nat (- (- int n div 2000))"
    by (simp add: totalParts_def)
  also have "\<dots> = (n + 1999) div 2000"
    by (simp add: nat_eq_iff zdiv_int) linarith
  finally show ?thesis .
qed

lemma totalParts_ceiling: "int (totalParts n) = \<lceil>real n / 2000\<rceil>"
proof -
  have "0 \<le> \<lceil>real n / 2000\<rceil>" by (simp add: ceiling_le_iff[symmetric] le_ceiling_iff)
  then show ?thesis by (simp add: totalParts_def BATCH_SIZE_def)
qed

lemma concat_chunks_take:
  "0 < b \<Longrightarrow> concat (map (\<lambda>i. take b (drop (i * b) xs)) [0..<p]) = take (p * b) xs"
proof (induction p)
  case 0
  then show ?case by simp
next
  case (Suc p)
  have "take (p * b) xs @ take b (drop (p * b) xs) = take (p * b + b) xs"
    by (simp add: take_add)
  with Suc show ?case by (simp add: add.commute)
qed

lemma chunk_take_drop: "chunk queries i = take 2000 (drop (i * 2000) queries)"
  by (simp add: chunk_def slice_def BATCH_SIZE_def)

lemma chunk_fun: "chunk queries = (\<lambda>i. take 2000 (drop (i * 2000) queries))"
  by (rule ext) (rule chunk_take_drop)

lemma totalParts_covers: "n \<le> totalParts n * 2000"
proof -
  have "(n + 1999) div 2000 * 2000 + (n + 1999) mod 2000 = n + 1999"
    by (rule div_mult_mod_eq)
  moreover have "(n + 1999) mod 2000 < 2000"
    by simp
  ultimately show ?thesis
    unfolding totalParts_div by linarith
qed

lemma concat_chunks: "concat (map (chunk queries) [0..<totalParts (length queries)]) = queries"
proof -
  have "length queries \<le> totalParts (length queries) * 2000"
    by (rule totalParts_covers)
  moreover have "concat (map (chunk queries) [0..<totalParts (length queries)])
      = take (totalParts (length queries) * 2000) queries"
    using concat_chunks_take[of 2000 queries "totalParts (length queries)"]
    by (simp add: chunk_fun)
  ultimately show ?thesis by simp
qed

lemma length_chunk_full:
  assumes "i + 1 < totalParts (length queries)"
  shows "length (chunk queries i) = 2000"
proof -
  from assms have "i + 2 \<le> (length queries + 1999) div 2000"
    by (simp add: totalParts_div)
  then have "(i + 2) * 2000 \<le> (length queries + 1999) div 2000 * 2000"
    by (rule mult_le_mono1)
  also have "\<dots> \<le> length queries + 1999"
    by (rule div_times_less_eq_dividend)
  finally have "(i + 1) * 2000 < length queries"
    by simp
  then show ?thesis by (simp add: chunk_take_drop)
qed

lemma length_chunk_le: "length (chunk queries i) \<le> 2000"
  by (simp add: chunk_take_drop)

lemma totalParts_zero: "totalParts 0 = 0"
  by (simp add: totalParts_div)

lemma totalParts_one: "0 < n \<Longrightarrow> n \<le> 2000 \<Longrightarrow> totalParts n = 1"
  by (simp add: totalParts_div)

lemma chunk_whole: "length queries \<le> 2000 \<Longrightarrow> chunk queries 0 = queries"
  by (simp add: chunk_take_drop)

lemma plan_queries_nonempty: "allCities \<noteq> [] \<Longrightarrow> 0 < length (plan_queries allCities)"
  by (simp add: length_plan_queries length_CATEGORIES)

subsection \<open>Target resolution\<close>

lemma set_resolve_cities:
  "set (resolve_cities reg cid) =
     {\<lparr>city_name = c_city_name c, state_code = c_state_code c\<rparr> | c.
        c \<in> set (cities reg)
        \<and> c_id c \<in> set (assigned_city_ids reg cid) \<union> set (claimed_city_ids reg cid)
        \<and> \<not> sublist ''county'' (map lower_char (c_city_name c))}"
  by (auto simp: resolve_cities_def Let_def ilike_county)

lemma distinct_resolve_cities: "distinct (resolve_cities reg cid)"
  by (simp add: resolve_cities_def Let_def)

lemma resolve_fallback_registry:
  "resolve_cities fallback_registry 1 =
     [\<lparr>city_name = ''Austin'', state_code = ''TX''\<rparr>, \<lparr>city_name = ''Dallas'', state_code = ''TX''\<rparr>]"
  by code_simp

lemma resolve_no_city_registry: "resolve_cities no_city_registry 1 = []"
  by code_simp

lemma many_cities: "length (resolve_cities many_city_registry 1) = 22"
  by code_simp

text \<open>
  Claim C1 says that rows of \<open>client_city_claims\<close> are left out whenever
  \<open>campaign_cities\<close> has a row for the campaign. The statement joins the two with
  UNION: for campaign 1, with city 1 assigned and city 2 only claimed by its client,
  both cities are resolved.
\<close>

theorem claimed_cities_merged:
  "assigned_city_ids fallback_registry 1 = [1]
   \<and> claimed_city_ids fallback_registry 1 = [2]
   \<and> resolve_cities fallback_registry 1 =
       [\<lparr>city_name = ''Austin'', state_code = ''TX''\<rparr>, \<lparr>city_name = ''Dallas'', state_code = ''TX''\<rparr>]"
  by code_simp

text \<open>
  Claim C8, first half, fails: DISTINCT compares the names as they are, so two rows
  whose names differ in letter case only are both resolved.
\<close>

theorem case_variants_kept:
  "set (resolve_cities case_registry 1) =
     {\<lparr>city_name = ''AUSTIN'', state_code = ''TX''\<rparr>, \<lparr>city_name = ''Austin'', state_code = ''TX''\<rparr>}
   \<and> length (resolve_cities case_registry 1) = 2
   \<and> map lower_char ''AUSTIN'' = map lower_char ''Austin''"
  by code_simp

text \<open>
  Claim C8 as amended. The resolved targets hold no (city name, state code) pair twice;
  no resolved target has "county" in its name in any letter case; and the resolved
  targets are exactly the rows of \<open>cities\<close>, assigned or claimed, whose name has no
  "county" in it.
\<close>

theorem resolved_targets_distinct_no_county:
  "distinct (resolve_cities reg cid)
   \<and> (\<forall>r\<in>set (resolve_cities reg cid). \<not> sublist ''county'' (map lower_char (city_name r)))
   \<and> set (resolve_cities reg cid) =
       {\<lparr>city_name = c_city_name c, state_code = c_state_code c\<rparr> | c.
          c \<in> set (cities reg)
          \<and> c_id c \<in> set (assigned_city_ids reg cid) \<union> set (claimed_city_ids reg cid)
          \<and> \<not> sublist ''county'' (map lower_char (c_city_name c))}"
proof -
  have "\<forall>r\<in>set (resolve_cities reg cid). \<not> sublist ''county'' (map lower_char (city_name r))"
    by (auto simp: set_resolve_cities)
  with distinct_resolve_cities set_resolve_cities show ?thesis
    by (intro conjI)
qed

theorem resolved_targets_distinct_no_county_witness:
  "distinct (resolve_cities case_registry 1)
   \<and> \<lparr>city_name = ''Travis County'', state_code = ''TX''\<rparr> \<notin> set (resolve_cities case_registry 1)
   \<and> sublist ''county'' (map lower_char ''Travis County'')
   \<and> \<lparr>city_name = ''Austin'', state_code = ''TX''\<rparr> \<in> set (resolve_cities case_registry 1)"
proof -
  note inst = resolved_targets_distinct_no_county[of case_registry 1]
  have county: "sublist ''county'' (map lower_char ''Travis County'')"
    by code_simp
  from inst have d: "distinct (resolve_cities case_registry 1)"
    by (rule conjunct1)
  from inst have "\<forall>r\<in>set (resolve_cities case_registry 1).
      \<not> sublist ''county'' (map lower_char (city_name r))"
    by (rule conjunct2[THEN conjunct1])
  with county have out: "\<lparr>city_name = ''Travis County'', state_code = ''TX''\<rparr>
      \<notin> set (resolve_cities case_registry 1)"
    by fastforce
  have "\<lparr>city_name = ''Austin'', state_code = ''TX''\<rparr> \<in> set (resolve_cities case_registry 1)"
    by code_simp
  with d out county show ?thesis
    by (intro conjI)
qed

subsection \<open>One campaign\<close>

lemma posts_of_simps [simp]:
  "posts_of [] = []"
  "posts_of (Post pl # tr) = pl # posts_of tr"
  "posts_of (UpdateCampaignName n b # tr) = posts_of tr"
  "posts_of (Sleep ms # tr) = posts_of tr"
  "posts_of (Console l # tr) = posts_of tr"
  "posts_of (tr @ tr') = posts_of tr @ posts_of tr'"
  by (simp_all add: posts_of_def)

lemma updates_of_simps [simp]:
  "updates_of [] = []"
  "updates_of (Post pl # tr) = updates_of tr"
  "updates_of (UpdateCampaignName n b # tr) = (n, b) # updates_of tr"
  "updates_of (Sleep ms # tr) = updates_of tr"
  "updates_of (Console l # tr) = updates_of tr"
  "updates_of (tr @ tr') = updates_of tr @ updates_of tr'"
  by (simp_all add: updates_of_def)

lemma submit_parts_done:
  "\<not> i < parts \<Longrightarrow> submit_parts post c queries statesArray parts i st = Inr st"
  by (simp add: submit_parts.simps)

lemma submit_parts_step:
  "i < parts \<Longrightarrow> submit_parts post c queries statesArray parts i st =
     (case submit_part post c queries statesArray parts i st of
        Inl err \<Rightarrow> Inl err
      | Inr st' \<Rightarrow> submit_parts post c queries statesArray parts (i + 1) st')"
  by (subst submit_parts.simps) simp

lemma process_campaign_existing:
  assumes "0 < existing_cnt (jobs_batch st) c"
  shows "process_campaign post dry reg c st =
     Inr (st\<lparr>skipped := skipped st + 1,
            trace := trace st @
              [Console (LogChecking (campaign_name c) (campaign_id c)),
               Console (LogSkipExisting (existing_cnt (jobs_batch st) c))]\<rparr>)"
  using assms by (simp add: process_campaign_def Let_def emit_def)

lemma process_campaign_no_targets:
  assumes "resolve_cities reg (campaign_id c) = []"
  shows "process_campaign post dry reg c st =
     Inr (st\<lparr>skipped := skipped st + 1,
            trace := trace st @
              [Console (LogChecking (campaign_name c) (campaign_id c)),
               Console (if 0 < existing_cnt (jobs_batch st) c
                        then LogSkipExisting (existing_cnt (jobs_batch st) c)
                        else LogSkipNoCities)]\<rparr>)"
  using assms by (simp add: process_campaign_def Let_def emit_def)

lemma process_campaign_submit:
  assumes "existing_cnt (jobs_batch st) c = 0" and "resolve_cities reg (campaign_id c) \<noteq> []"
  shows "process_campaign post False reg c st =
     submit_parts post c (plan_queries (resolve_cities reg (campaign_id c)))
       (plan_states (resolve_cities reg (campaign_id c)))
       (totalParts (length (plan_queries (resolve_cities reg (campaign_id c))))) 0
       (st\<lparr>trace := trace st @
          [Console (LogChecking (campaign_name c) (campaign_id c)),
           Console (LogCities (resolve_cities reg (campaign_id c))),
           Console (LogPlan (length (plan_queries (resolve_cities reg (campaign_id c))))
             (totalParts (length (plan_queries (resolve_cities reg (campaign_id c)))))
             (plan_states (resolve_cities reg (campaign_id c))))]\<rparr>)"
  using assms by (simp add: process_campaign_def Let_def emit_def)

lemma process_campaign_single_part:
  assumes "existing_cnt (jobs_batch st) c = 0"
    and "resolve_cities reg (campaign_id c) \<noteq> []"
    and "length (plan_queries (resolve_cities reg (campaign_id c))) \<le> 2000"
  shows "process_campaign post False reg c st =
     (let allCities = resolve_cities reg (campaign_id c);
          queries = plan_queries allCities;
          pl = \<lparr>p_name = campaign_name c, p_queries = queries, p_autoImport = True,
                p_targetStates = plan_states allCities, p_leadRecyclingCampaignId = campaign_id c\<rparr>;
          sent = trace st @
            [Console (LogChecking (campaign_name c) (campaign_id c)),
             Console (LogCities allCities),
             Console (LogPlan (length queries) 1 (plan_states allCities)),
             Post pl]
      in case post pl (jobs_batch st) of
           None \<Rightarrow> Inl (SubmissionFailed, st\<lparr>trace := sent\<rparr>)
         | Some (batchId, tbl) \<Rightarrow>
             Inr (st\<lparr>jobs_batch := tbl, created := created st + 1,
                    trace := sent @ [Console (LogCreated (campaign_name c) batchId (length queries))]\<rparr>))"
proof -
  let ?qs = "plan_queries (resolve_cities reg (campaign_id c))"
  have parts: "totalParts (length ?qs) = 1"
    using assms(2,3) plan_queries_nonempty[of "resolve_cities reg (campaign_id c)"]
    by (intro totalParts_one) auto
  have whole: "chunk ?qs 0 = ?qs"
    using assms(3) by (rule chunk_whole)
  show ?thesis
    using assms(1,2)
    by (simp add: process_campaign_def Let_def parts submit_parts_step submit_parts_done
        submit_part_def make_payload_def batchName_def whole emit_def split: option.splits)
qed

lemma process_campaign_dry:
  "process_campaign post True reg c st =
     Inr (st\<lparr>skipped := skipped st + (if planned_skip reg (jobs_batch st) c then 1 else 0),
            trace := trace st @ map Console (planning_report reg (jobs_batch st) c)\<rparr>)"
  by (simp add: process_campaign_def planned_skip_def planning_report_def Let_def emit_def)

lemma update_campaign_name_fresh:
  assumes "batchId \<notin> jb_batch_id ` set tbl"
  shows "update_campaign_name n batchId (tbl @ [row]) =
           tbl @ [if jb_batch_id row = batchId then row\<lparr>jb_campaign_name := Some n\<rparr> else row]"
proof -
  have "map (\<lambda>b. if jb_batch_id b = batchId then b\<lparr>jb_campaign_name := Some n\<rparr> else b) tbl = tbl"
    using assms by (intro map_idI) auto
  then show ?thesis by (simp add: update_campaign_name_def)
qed

lemma submit_part_contract:
  assumes "inserts_batch post"
    and "submit_part post c queries statesArray parts i st = Inr st1"
  shows "\<exists>row. jobs_batch st1 = jobs_batch st @ [row]
           \<and> jb_lead_recycling_campaign_id row = Some (campaign_id c)
           \<and> (1 < parts \<longrightarrow> jb_campaign_name row = Some (campaign_name c))
           \<and> created st1 = created st + 1 \<and> skipped st1 = skipped st
           \<and> posts_of (trace st1) = posts_of (trace st) @ [make_payload c queries statesArray parts i]
           \<and> updates_of (trace st1) =
               updates_of (trace st) @ (if 1 < parts then [(campaign_name c, jb_batch_id row)] else [])"
proof -
  let ?pl = "make_payload c queries statesArray parts i"
  from assms(2) obtain batchId tbl where post: "post ?pl (jobs_batch st) = Some (batchId, tbl)"
    by (auto simp: submit_part_def Let_def emit_def split: option.splits)
  with assms(1) obtain row where fresh: "batchId \<notin> jb_batch_id ` set (jobs_batch st)"
    and tbl: "tbl = jobs_batch st @ [row]" and bid: "jb_batch_id row = batchId"
    and link: "jb_lead_recycling_campaign_id row = Some (p_leadRecyclingCampaignId ?pl)"
    unfolding inserts_batch_def by blast
  let ?row = "if 1 < parts then row\<lparr>jb_campaign_name := Some (campaign_name c)\<rparr> else row"
  from assms(2) post tbl bid fresh
  have "jobs_batch st1 = jobs_batch st @ [?row]"
    and "created st1 = created st + 1" and "skipped st1 = skipped st"
    and "posts_of (trace st1) = posts_of (trace st) @ [?pl]"
    and "updates_of (trace st1) =
           updates_of (trace st) @ (if 1 < parts then [(campaign_name c, batchId)] else [])"
    by (auto simp: submit_part_def Let_def emit_def update_campaign_name_fresh)
  moreover have "jb_lead_recycling_campaign_id ?row = Some (campaign_id c)"
    using link by (simp add: make_payload_def)
  moreover have "1 < parts \<longrightarrow> jb_campaign_name ?row = Some (campaign_name c)"
    by simp
  moreover have "jb_batch_id ?row = batchId"
    using bid by simp
  ultimately show ?thesis by metis
qed

lemma submit_parts_contract:
  "inserts_batch post \<Longrightarrow> submit_parts post c queries statesArray parts i st = Inr st' \<Longrightarrow>
     \<exists>rows. jobs_batch st' = jobs_batch st @ rows \<and> length rows = parts - i
       \<and> (\<forall>row\<in>set rows. jb_lead_recycling_campaign_id row = Some (campaign_id c)
             \<and> (1 < parts \<longrightarrow> jb_campaign_name row = Some (campaign_name c)))
       \<and> created st' = created st + (parts - i) \<and> skipped st' = skipped st
       \<and> posts_of (trace st') =
           posts_of (trace st) @ map (make_payload c queries statesArray parts) [i..<parts]
       \<and> updates_of (trace st') =
           updates_of (trace st) @
             (if 1 < parts then map (\<lambda>row. (campaign_name c, jb_batch_id row)) rows else [])"
proof (induction post c queries statesArray parts i st rule: submit_parts.induct)
  case (1 post c queries statesArray parts i st)
  show ?case
  proof (cases "i < parts")
    case False
    with "1.prems"(2) have "st' = st"
      by (simp add: submit_parts_done)
    with False show ?thesis by simp
  next
    case True
    with "1.prems"(2) obtain st1
      where s1: "submit_part post c queries statesArray parts i st = Inr st1"
        and rest: "submit_parts post c queries statesArray parts (i + 1) st1 = Inr st'"
      by (auto simp: submit_parts_step split: sum.splits)
    from submit_part_contract[OF "1.prems"(1) s1] obtain row
      where r: "jobs_batch st1 = jobs_batch st @ [row]"
        "jb_lead_recycling_campaign_id row = Some (campaign_id c)"
        "1 < parts \<longrightarrow> jb_campaign_name row = Some (campaign_name c)"
        "created st1 = created st + 1" "skipped st1 = skipped st"
        "posts_of (trace st1) = posts_of (trace st) @ [make_payload c queries statesArray parts i]"
        "updates_of (trace st1) =
           updates_of (trace st) @ (if 1 < parts then [(campaign_name c, jb_batch_id row)] else [])"
      by blast
    from "1.IH"[OF True s1 "1.prems"(1) rest] obtain rows
      where rs: "jobs_batch st' = jobs_batch st1 @ rows" "length rows = parts - (i + 1)"
        "\<forall>row\<in>set rows. jb_lead_recycling_campaign_id row = Some (campaign_id c)
             \<and> (1 < parts \<longrightarrow> jb_campaign_name row = Some (campaign_name c))"
        "created st' = created st1 + (parts - (i + 1))" "skipped st' = skipped st1"
        "posts_of (trace st') =
           posts_of (trace st1) @ map (make_payload c queries statesArray parts) [i + 1..<parts]"
        "updates_of (trace st') =
           updates_of (trace st1) @
             (if 1 < parts then map (\<lambda>row. (campaign_name c, jb_batch_id row)) rows else [])"
      by blast
    have upt: "[i..<parts] = i # [i + 1..<parts]"
      using True by (simp add: upt_conv_Cons)
    have "jobs_batch st' = jobs_batch st @ (row # rows)"
      using r(1) rs(1) by simp
    moreover have "length (row # rows) = parts - i"
      using rs(2) True by simp
    moreover have "\<forall>row\<in>set (row # rows). jb_lead_recycling_campaign_id row = Some (campaign_id c)
             \<and> (1 < parts \<longrightarrow> jb_campaign_name row = Some (campaign_name c))"
      using r(2,3) rs(3) by simp
    moreover have "created st' = created st + (parts - i)"
      using r(4) rs(4) True by simp
    moreover have "skipped st' = skipped st"
      using r(5) rs(5) by simp
    moreover have "posts_of (trace st') =
           posts_of (trace st) @ map (make_payload c queries statesArray parts) [i..<parts]"
      using r(6) rs(6) upt by simp
    moreover have "updates_of (trace st') =
           updates_of (trace st) @
             (if 1 < parts then map (\<lambda>row. (campaign_name c, jb_batch_id row)) (row # rows) else [])"
      using r(7) rs(7) by simp
    ultimately show ?thesis by blast
  qed
qed

lemma submit_part_succeeds:
  assumes "\<And>pl tbl. post pl tbl \<noteq> None"
  shows "\<exists>st1. submit_part post c queries statesArray parts i st = Inr st1"
proof -
  let ?pl = "make_payload c queries statesArray parts i"
  from assms obtain r where "post ?pl (jobs_batch st) = Some r"
    by (meson option.exhaust)
  then show ?thesis
    by (cases r) (simp add: submit_part_def Let_def emit_def)
qed

lemma submit_parts_succeeds:
  "(\<And>pl tbl. post pl tbl \<noteq> None) \<Longrightarrow>
     \<exists>st'. submit_parts post c queries statesArray parts i st = Inr st'"
proof (induction post c queries statesArray parts i st rule: submit_parts.induct)
  case (1 post c queries statesArray parts i st)
  show ?case
  proof (cases "i < parts")
    case False
    then show ?thesis by (simp add: submit_parts_done)
  next
    case True
    from submit_part_succeeds[of post c queries statesArray parts i st] "1.prems"
    obtain st1 where s1: "submit_part post c queries statesArray parts i st = Inr st1"
      by blast
    from "1.IH"[OF True s1] "1.prems" obtain st'
      where "submit_parts post c queries statesArray parts (i + 1) st1 = Inr st'"
      by blast
    with True s1 show ?thesis by (simp add: submit_parts_step)
  qed
qed

lemma sample_dashboard_inserts: "inserts_batch sample_dashboard"
proof -
  have "Suc (Max (insert 0 (jb_batch_id ` set tbl))) \<notin> jb_batch_id ` set tbl" for tbl
  proof
    assume "Suc (Max (insert 0 (jb_batch_id ` set tbl))) \<in> jb_batch_id ` set tbl"
    then have "Suc (Max (insert 0 (jb_batch_id ` set tbl))) \<le> Max (insert 0 (jb_batch_id ` set tbl))"
      by (intro Max_ge) auto
    then show False by simp
  qed
  then show ?thesis
    by (auto simp: inserts_batch_def sample_dashboard_def Let_def)
qed

lemma sample_dashboard_total: "sample_dashboard pl tbl \<noteq> None"
  by (simp add: sample_dashboard_def Let_def)

lemma submit_part_posts:
  assumes "submit_part post c queries statesArray parts i st = Inr st1"
  shows "posts_of (trace st1) = posts_of (trace st) @ [make_payload c queries statesArray parts i]"
  using assms
  by (auto simp: submit_part_def Let_def emit_def split: option.splits if_splits)

lemma submit_parts_posts:
  "submit_parts post c queries statesArray parts i st = Inr st' \<Longrightarrow>
     posts_of (trace st') =
       posts_of (trace st) @ map (make_payload c queries statesArray parts) [i..<parts]"
proof (induction post c queries statesArray parts i st rule: submit_parts.induct)
  case (1 post c queries statesArray parts i st)
  show ?case
  proof (cases "i < parts")
    case False
    with "1.prems" have "st' = st"
      by (simp add: submit_parts_done)
    with False show ?thesis by simp
  next
    case True
    with "1.prems" obtain st1
      where s1: "submit_part post c queries statesArray parts i st = Inr st1"
        and rest: "submit_parts post c queries statesArray parts (i + 1) st1 = Inr st'"
      by (auto simp: submit_parts_step split: sum.splits)
    have upt: "[i..<parts] = i # [i + 1..<parts]"
      using True by (simp add: upt_conv_Cons)
    from "1.IH"[OF True s1 rest] submit_part_posts[OF s1] show ?thesis
      by (simp add: upt)
  qed
qed

lemma batch_plans_Nil: "batch_plans c [] = []"
  by (simp add: batch_plans_def plan_queries_concat totalParts_zero)

lemma process_campaign_posts:
  assumes "existing_cnt (jobs_batch st) c = 0"
    and "process_campaign post False reg c st = Inr st'"
  shows "posts_of (trace st') =
           posts_of (trace st) @ batch_plans c (resolve_cities reg (campaign_id c))"
proof (cases "resolve_cities reg (campaign_id c) = []")
  case True
  with assms(2) show ?thesis
    by (auto simp: process_campaign_no_targets batch_plans_Nil)
next
  case False
  let ?cities = "resolve_cities reg (campaign_id c)"
  let ?qs = "plan_queries ?cities"
  let ?st3 = "st\<lparr>trace := trace st @
          [Console (LogChecking (campaign_name c) (campaign_id c)),
           Console (LogCities ?cities),
           Console (LogPlan (length ?qs) (totalParts (length ?qs)) (plan_states ?cities))]\<rparr>"
  from assms(2)
  have "submit_parts post c ?qs (plan_states ?cities) (totalParts (length ?qs)) 0 ?st3 = Inr st'"
    unfolding process_campaign_submit[OF assms(1) False] .
  from submit_parts_posts[OF this] show ?thesis
    by (simp add: batch_plans_def)
qed

lemma length_batch_plans:
  "length (batch_plans c allCities) = totalParts (length (plan_queries allCities))"
  by (simp add: batch_plans_def)

lemma p_queries_batch_plans:
  "i < totalParts (length (plan_queries allCities)) \<Longrightarrow>
     p_queries (batch_plans c allCities ! i) = chunk (plan_queries allCities) i"
  by (simp add: batch_plans_def make_payload_def)

lemma concat_batch_plans:
  "concat (map p_queries (batch_plans c allCities)) = plan_queries allCities"
proof -
  have "map p_queries (batch_plans c allCities) =
      map (chunk (plan_queries allCities)) [0..<totalParts (length (plan_queries allCities))]"
    by (simp add: batch_plans_def make_payload_def comp_def)
  then show ?thesis
    by (simp only: concat_chunks)
qed

lemma first_many_city:
  "resolve_cities many_city_registry 1 ! 0 = \<lparr>city_name = ''City 0'', state_code = ''TX''\<rparr>"
  by code_simp

text \<open>
  Claim C2. For a target sequence of length M the planner produces M * K queries, K
  the length of the catalog; the query at position t * K + k is category k "in" target
  t, so all categories of a target come before the next target. The batch plans built
  from them number the ceiling of M * K / 2000; every plan but the last carries exactly
  2000 queries, none carries more; and the queries of the plans, concatenated in order,
  are the query list. These plans are what a campaign without existing work posts to
  the dashboard, in this order.
\<close>

theorem query_plan_cross_product:
  "length (plan_queries targets) = length targets * length CATEGORIES
   \<and> (\<forall>t k. t < length targets \<and> k < length CATEGORIES \<longrightarrow>
         plan_queries targets ! (t * length CATEGORIES + k) =
           CATEGORIES ! k @ '' in '' @ city_name (targets ! t) @ '', '' @ state_code (targets ! t))
   \<and> int (length (batch_plans c targets)) =
         \<lceil>real (length targets * length CATEGORIES) / 2000\<rceil>
   \<and> (\<forall>i. i + 1 < length (batch_plans c targets) \<longrightarrow>
         length (p_queries (batch_plans c targets ! i)) = 2000)
   \<and> (\<forall>i. i < length (batch_plans c targets) \<longrightarrow>
         length (p_queries (batch_plans c targets ! i)) \<le> 2000)
   \<and> concat (map p_queries (batch_plans c targets)) = plan_queries targets
   \<and> (targets = resolve_cities reg (campaign_id c)
        \<and> existing_cnt (jobs_batch st) c = 0
        \<and> process_campaign post False reg c st = Inr st' \<longrightarrow>
          posts_of (trace st') = posts_of (trace st) @ batch_plans c targets)"
proof -
  let ?parts = "totalParts (length (plan_queries targets))"
  have nth: "\<forall>t k. t < length targets \<and> k < length CATEGORIES \<longrightarrow>
         plan_queries targets ! (t * length CATEGORIES + k) =
           CATEGORIES ! k @ '' in '' @ city_name (targets ! t) @ '', '' @ state_code (targets ! t)"
    by (simp add: nth_plan_queries)
  have count: "int (length (batch_plans c targets)) =
         \<lceil>real (length targets * length CATEGORIES) / 2000\<rceil>"
    by (simp only: length_batch_plans totalParts_ceiling length_plan_queries)
  have full: "\<forall>i. i + 1 < length (batch_plans c targets) \<longrightarrow>
         length (p_queries (batch_plans c targets ! i)) = 2000"
  proof (intro allI impI)
    fix i assume "i + 1 < length (batch_plans c targets)"
    then have i: "i + 1 < ?parts"
      by (simp only: length_batch_plans)
    then have "i < ?parts" by simp
    then have "p_queries (batch_plans c targets ! i) = chunk (plan_queries targets) i"
      by (rule p_queries_batch_plans)
    with length_chunk_full[OF i] show "length (p_queries (batch_plans c targets ! i)) = 2000"
      by simp
  qed
  have bound: "\<forall>i. i < length (batch_plans c targets) \<longrightarrow>
         length (p_queries (batch_plans c targets ! i)) \<le> 2000"
    by (simp add: length_batch_plans p_queries_batch_plans length_chunk_le)
  have posted: "targets = resolve_cities reg (campaign_id c)
        \<and> existing_cnt (jobs_batch st) c = 0
        \<and> process_campaign post False reg c st = Inr st' \<longrightarrow>
          posts_of (trace st') = posts_of (trace st) @ batch_plans c targets"
    using process_campaign_posts[of st c post reg st'] by simp
  from length_plan_queries[of targets] nth count full bound concat_batch_plans[of c targets] posted
  show ?thesis
    by (intro conjI)
qed

theorem query_plan_cross_product_witness:
  "\<exists>st'. process_campaign sample_dashboard False many_city_registry acme (fresh_state []) = Inr st'
     \<and> length (plan_queries (resolve_cities many_city_registry 1)) = 4642
     \<and> plan_queries (resolve_cities many_city_registry 1) ! 3 = ''Bank in City 0, TX''
     \<and> length (posts_of (trace st')) = 3
     \<and> length (p_queries (posts_of (trace st') ! 0)) = 2000
     \<and> length (p_queries (posts_of (trace st') ! 1)) = 2000
     \<and> concat (map p_queries (posts_of (trace st'))) =
         plan_queries (resolve_cities many_city_registry 1)"
proof -
  let ?cities = "resolve_cities many_city_registry (campaign_id acme)"
  let ?plans = "batch_plans acme ?cities"
  have id: "campaign_id acme = 1"
    by (simp add: acme_def)
  have cnt: "existing_cnt (jobs_batch (fresh_state [])) acme = 0"
    by (simp add: fresh_state_def existing_cnt_def)
  have ne: "?cities \<noteq> []"
    using many_cities by (auto simp: id)
  let ?st3 = "(fresh_state [])\<lparr>trace := trace (fresh_state []) @
          [Console (LogChecking (campaign_name acme) (campaign_id acme)),
           Console (LogCities ?cities),
           Console (LogPlan (length (plan_queries ?cities))
             (totalParts (length (plan_queries ?cities))) (plan_states ?cities))]\<rparr>"
  have unfold: "process_campaign sample_dashboard False many_city_registry acme (fresh_state []) =
      submit_parts sample_dashboard acme (plan_queries ?cities) (plan_states ?cities)
       (totalParts (length (plan_queries ?cities))) 0 ?st3"
    using cnt ne by (rule process_campaign_submit)
  have "\<exists>st'. submit_parts sample_dashboard acme (plan_queries ?cities) (plan_states ?cities)
       (totalParts (length (plan_queries ?cities))) 0 ?st3 = Inr st'"
    by (rule submit_parts_succeeds) (rule sample_dashboard_total)
  then obtain st' where "submit_parts sample_dashboard acme (plan_queries ?cities) (plan_states ?cities)
       (totalParts (length (plan_queries ?cities))) 0 ?st3 = Inr st'" ..
  with unfold
  have run: "process_campaign sample_dashboard False many_city_registry acme (fresh_state []) = Inr st'"
    by (rule trans)
  note inst = query_plan_cross_product[of ?cities acme many_city_registry "fresh_state []"
      sample_dashboard st']
  from inst have "length (plan_queries ?cities) = length ?cities * length CATEGORIES"
    by (rule conjunct1)
  then have len: "length (plan_queries ?cities) = 4642"
    by (simp add: id many_cities length_CATEGORIES)
  from inst have nth: "\<forall>t k. t < length ?cities \<and> k < length CATEGORIES \<longrightarrow>
         plan_queries ?cities ! (t * length CATEGORIES + k) =
           CATEGORIES ! k @ '' in '' @ city_name (?cities ! t) @ '', '' @ state_code (?cities ! t)"
    by (rule conjunct2[THEN conjunct1])
  have cat: "CATEGORIES ! 3 = ''Bank''"
    by (simp add: CATEGORIES_def)
  have "(0::nat) < length ?cities \<and> (3::nat) < length CATEGORIES"
    by (simp add: id many_cities length_CATEGORIES)
  with nth have "plan_queries ?cities ! (0 * length CATEGORIES + 3) =
      CATEGORIES ! 3 @ '' in '' @ city_name (?cities ! 0) @ '', '' @ state_code (?cities ! 0)"
    by (elim allE impE) assumption
  then have q: "plan_queries ?cities ! 3 = ''Bank in City 0, TX''"
    by (simp add: cat id first_many_city)
  from inst have "int (length ?plans) = \<lceil>real (length ?cities * length CATEGORIES) / 2000\<rceil>"
    by (rule conjunct2[THEN conjunct2, THEN conjunct1])
  also have "\<dots> = 3"
    by (simp add: id many_cities length_CATEGORIES)
  finally have n: "length ?plans = 3"
    by simp
  from inst have full: "\<forall>i. i + 1 < length ?plans \<longrightarrow> length (p_queries (?plans ! i)) = 2000"
    by (rule conjunct2[THEN conjunct2, THEN conjunct2, THEN conjunct1])
  from full have "0 + 1 < length ?plans \<longrightarrow> length (p_queries (?plans ! 0)) = 2000"
    by (rule spec)
  with n have f0: "length (p_queries (?plans ! 0)) = 2000"
    by simp
  from full have "1 + 1 < length ?plans \<longrightarrow> length (p_queries (?plans ! 1)) = 2000"
    by (rule spec)
  with n have f1: "length (p_queries (?plans ! 1)) = 2000"
    by simp
  from inst have cc: "concat (map p_queries ?plans) = plan_queries ?cities"
    by (rule conjunct2[THEN conjunct2, THEN conjunct2, THEN conjunct2, THEN conjunct2, THEN conjunct1])
  from inst have "?cities = resolve_cities many_city_registry (campaign_id acme)
        \<and> existing_cnt (jobs_batch (fresh_state [])) acme = 0
        \<and> process_campaign sample_dashboard False many_city_registry acme (fresh_state []) = Inr st' \<longrightarrow>
          posts_of (trace st') = posts_of (trace (fresh_state [])) @ ?plans"
    by (rule conjunct2[THEN conjunct2, THEN conjunct2, THEN conjunct2, THEN conjunct2, THEN conjunct2])
  with cnt run have "posts_of (trace st') = posts_of (trace (fresh_state [])) @ ?plans"
    by simp
  then have posted: "posts_of (trace st') = ?plans"
    by (simp add: fresh_state_def)
  have "length (plan_queries (resolve_cities many_city_registry 1)) = 4642"
    using len by (simp add: id)
  moreover have "plan_queries (resolve_cities many_city_registry 1) ! 3 = ''Bank in City 0, TX''"
    using q by (simp add: id)
  moreover have "length (posts_of (trace st')) = 3"
    using n by (simp only: posted)
  moreover have "length (p_queries (posts_of (trace st') ! 0)) = 2000"
    using f0 by (simp only: posted)
  moreover have "length (p_queries (posts_of (trace st') ! 1)) = 2000"
    using f1 by (simp only: posted)
  moreover have "concat (map p_queries (posts_of (trace st'))) =
         plan_queries (resolve_cities many_city_registry 1)"
    using cc by (simp only: posted id)
  ultimately show ?thesis
    using run by (intro exI[of _ st'] conjI)
qed

lemma batchName_parts: "1 < parts \<Longrightarrow>
  map (p_name \<circ> make_payload c queries statesArray parts) [0..<parts] =
    map (\<lambda>i. campaign_name c @ '' Part '' @ show_nat (i + 1)) [0..<parts]"
  by (simp add: make_payload_def batchName_def comp_def)

lemma show_nat_1_2_3:
  "show_nat (Suc 0) = ''1'' \<and> show_nat (Suc (Suc 0)) = ''2'' \<and> show_nat (Suc (Suc (Suc 0))) = ''3''"
  by (simp add: show_nat.simps)

lemma upt3: "[0..<3] = [0, Suc 0, Suc (Suc 0)]"
  by (simp add: upt_conv_Cons)

lemma select_backslash: "select_campaigns backslash_registry = [backslash_campaign]"
  by code_simp

lemma resolve_backslash_registry:
  "resolve_cities backslash_registry 1 = [\<lparr>city_name = ''Austin'', state_code = ''TX''\<rparr>]"
  by code_simp

lemma backslash_cnt: "existing_cnt [legacy_batch] backslash_campaign = 0"
  by code_simp

lemma backslash_prefix: "prefix (campaign_name backslash_campaign) (jb_name legacy_batch)"
  by code_simp

text \<open>
  Claim C3 says that a campaign is skipped when a batch's name starts with the campaign
  name. The name is used as a LIKE pattern, in which a backslash escapes the next
  character: for the campaign \<open>A\B (GMaps)\<close> the batch \<open>A\B (GMaps) Part 1\<close> is not
  counted, and the run creates a new batch for the campaign instead of skipping it.
\<close>

theorem backslash_prefix_not_skipped:
  "select_campaigns backslash_registry = [backslash_campaign]
   \<and> prefix (campaign_name backslash_campaign) (jb_name legacy_batch)
   \<and> existing_cnt [legacy_batch] backslash_campaign = 0
   \<and> (case run ok_env sample_dashboard backslash_registry [legacy_batch] of
         Inl err \<Rightarrow> False
       | Inr st \<Rightarrow> created st = 1 \<and> skipped st = 0
                    \<and> map jb_name (jobs_batch st) =
                        [jb_name legacy_batch, campaign_name backslash_campaign]
                    \<and> map p_name (posts_of (trace st)) = [campaign_name backslash_campaign])"
proof -
  let ?st = "emit (Console (LogFound (length [backslash_campaign])))
               \<lparr>jobs_batch = [legacy_batch], created = 0, skipped = 0, trace = []\<rparr>"
  have id: "campaign_id backslash_campaign = 1"
    by (simp add: backslash_campaign_def)
  have cnt: "existing_cnt (jobs_batch ?st) backslash_campaign = 0"
    by (simp add: emit_def backslash_cnt)
  have ne: "resolve_cities backslash_registry (campaign_id backslash_campaign) \<noteq> []"
    by (simp add: id resolve_backslash_registry)
  have le: "length (plan_queries (resolve_cities backslash_registry (campaign_id backslash_campaign)))
      \<le> 2000"
    by (simp add: id resolve_backslash_registry length_plan_queries length_CATEGORIES)
  have env: "\<not> falsy (RECYCLING_DB_URL ok_env)" "\<not> falsy (GMAPS_DB_URL ok_env)" "\<not> DRY_RUN ok_env"
    by (simp_all add: ok_env_def falsy_def DRY_RUN_def)
  have "\<exists>s. process_campaign sample_dashboard False backslash_registry backslash_campaign ?st = Inr s
      \<and> created s = 1 \<and> skipped s = 0
      \<and> map jb_name (jobs_batch s) = [jb_name legacy_batch, campaign_name backslash_campaign]
      \<and> map p_name (posts_of (trace s)) = [campaign_name backslash_campaign]"
    unfolding process_campaign_single_part[OF cnt ne le]
    by (simp add: Let_def sample_dashboard_def emit_def)
  then obtain s
    where pc: "process_campaign sample_dashboard False backslash_registry backslash_campaign ?st = Inr s"
      and s: "created s = 1" "skipped s = 0"
        "map jb_name (jobs_batch s) = [jb_name legacy_batch, campaign_name backslash_campaign]"
        "map p_name (posts_of (trace s)) = [campaign_name backslash_campaign]"
    by (elim exE conjE)
  have "run ok_env sample_dashboard backslash_registry [legacy_batch] =
      (case run_campaigns sample_dashboard False backslash_registry [backslash_campaign] ?st of
         Inl err \<Rightarrow> Inl err
       | Inr st \<Rightarrow> Inr (emit (Console (LogDone (created st) (skipped st))) st))"
    using env by (simp add: run_def Let_def select_backslash)
  also have "run_campaigns sample_dashboard False backslash_registry [backslash_campaign] ?st = Inr s"
    using pc by simp
  finally have "run ok_env sample_dashboard backslash_registry [legacy_batch] =
      Inr (emit (Console (LogDone (created s) (skipped s))) s)"
    by simp
  then have "case run ok_env sample_dashboard backslash_registry [legacy_batch] of
         Inl err \<Rightarrow> False
       | Inr st \<Rightarrow> created st = 1 \<and> skipped st = 0
                    \<and> map jb_name (jobs_batch st) =
                        [jb_name legacy_batch, campaign_name backslash_campaign]
                    \<and> map p_name (posts_of (trace st)) = [campaign_name backslash_campaign]"
    using s by (simp add: emit_def)
  with select_backslash backslash_prefix backslash_cnt show ?thesis
    by (intro conjI)
qed

lemma existing_where_prefix:
  assumes "CHR 0x5C \<notin> set (campaign_name c)" and "prefix (campaign_name c) (jb_name b)"
  shows "existing_where c b"
proof -
  from assms(2) obtain t where "jb_name b = campaign_name c @ t"
    by (auto simp: prefix_def)
  with like_match_prefix_no_escape[OF assms(1), of t] show ?thesis
    by (simp add: existing_where_def)
qed

text \<open>
  The part of claim C3 that holds: a campaign with a batch linked to its id, or with its
  name as \<open>campaign_name\<close>, or whose name starts with the campaign name when that name
  has no backslash, is skipped once, and nothing else changes.
\<close>

theorem existing_batch_skipped_once:
  assumes "b \<in> set (jobs_batch st)"
    and "jb_lead_recycling_campaign_id b = Some (campaign_id c)
         \<or> jb_campaign_name b = Some (campaign_name c)
         \<or> (prefix (campaign_name c) (jb_name b) \<and> CHR 0x5C \<notin> set (campaign_name c))"
  shows "process_campaign post dry reg c st =
     Inr (st\<lparr>skipped := skipped st + 1,
            trace := trace st @
              [Console (LogChecking (campaign_name c) (campaign_id c)),
               Console (LogSkipExisting (existing_cnt (jobs_batch st) c))]\<rparr>)"
proof -
  from assms(2) have "existing_where c b"
    using existing_where_prefix[of c b] by (auto simp: existing_where_def)
  with assms(1) have "b \<in> set (filter (existing_where c) (jobs_batch st))"
    by simp
  then have "0 < existing_cnt (jobs_batch st) c"
    unfolding existing_cnt_def by (rule length_pos_if_in_set)
  then show ?thesis
    by (rule process_campaign_existing)
qed

theorem existing_batch_skipped_once_witness:
  "process_campaign sample_dashboard False fallback_registry acme (fresh_state [part_batch]) =
     Inr \<lparr>jobs_batch = [part_batch], created = 0, skipped = 1,
          trace = [Console (LogChecking ''Acme (GMaps)'' 1), Console (LogSkipExisting 1)]\<rparr>"
proof -
  have mem: "part_batch \<in> set (jobs_batch (fresh_state [part_batch]))"
    by (simp add: fresh_state_def)
  have "prefix (campaign_name acme) (jb_name part_batch) \<and> CHR 0x5C \<notin> set (campaign_name acme)"
    by code_simp
  then have hyp: "jb_lead_recycling_campaign_id part_batch = Some (campaign_id acme)
         \<or> jb_campaign_name part_batch = Some (campaign_name acme)
         \<or> (prefix (campaign_name acme) (jb_name part_batch) \<and> CHR 0x5C \<notin> set (campaign_name acme))"
    by (intro disjI2)
  have cnt: "existing_cnt [part_batch] acme = 1"
    by code_simp
  show ?thesis
    unfolding existing_batch_skipped_once[OF mem hyp, of sample_dashboard False fallback_registry]
    by (simp add: fresh_state_def cnt) (simp add: acme_def)
qed


text \<open>
  Claim C10. The campaign name is used as a LIKE pattern as it is: a campaign whose
  name contains \<open>%\<close> or \<open>_\<close> is counted as having existing work, and skipped, because of
  a batch that is not linked to it, has no campaign name, and whose name does not
  start with the campaign name.
\<close>

theorem like_wildcard_false_positive:
  "CHR ''%'' \<in> set (campaign_name percent_campaign)
   \<and> \<not> prefix (campaign_name percent_campaign) (jb_name unrelated_batch)
   \<and> jb_lead_recycling_campaign_id unrelated_batch = None
   \<and> jb_campaign_name unrelated_batch = None
   \<and> existing_cnt [unrelated_batch] percent_campaign = 1
   \<and> process_campaign post dry reg percent_campaign (fresh_state [unrelated_batch]) =
       Inr \<lparr>jobs_batch = [unrelated_batch], created = 0, skipped = 1,
            trace = [Console (LogChecking ''100% Clean (GMaps)'' 1), Console (LogSkipExisting 1)]\<rparr>
   \<and> CHR ''_'' \<in> set (campaign_name underscore_campaign)
   \<and> \<not> prefix (campaign_name underscore_campaign) (jb_name other_batch)
   \<and> jb_lead_recycling_campaign_id other_batch = None
   \<and> jb_campaign_name other_batch = None
   \<and> existing_cnt [other_batch] underscore_campaign = 1
   \<and> process_campaign post dry reg underscore_campaign (fresh_state [other_batch]) =
       Inr \<lparr>jobs_batch = [other_batch], created = 0, skipped = 1,
            trace = [Console (LogChecking ''A_B (GMaps)'' 2), Console (LogSkipExisting 1)]\<rparr>"
proof -
  have p1: "CHR ''%'' \<in> set (campaign_name percent_campaign)
      \<and> \<not> prefix (campaign_name percent_campaign) (jb_name unrelated_batch)
      \<and> jb_lead_recycling_campaign_id unrelated_batch = None
      \<and> jb_campaign_name unrelated_batch = None"
    by code_simp
  have c1: "existing_cnt [unrelated_batch] percent_campaign = 1"
    by code_simp
  have r1: "process_campaign post dry reg percent_campaign (fresh_state [unrelated_batch]) =
       Inr \<lparr>jobs_batch = [unrelated_batch], created = 0, skipped = 1,
            trace = [Console (LogChecking ''100% Clean (GMaps)'' 1), Console (LogSkipExisting 1)]\<rparr>"
    by (simp add: process_campaign_existing fresh_state_def c1) (simp add: percent_campaign_def)
  have p2: "CHR ''_'' \<in> set (campaign_name underscore_campaign)
      \<and> \<not> prefix (campaign_name underscore_campaign) (jb_name other_batch)
      \<and> jb_lead_recycling_campaign_id other_batch = None
      \<and> jb_campaign_name other_batch = None"
    by code_simp
  have c2: "existing_cnt [other_batch] underscore_campaign = 1"
    by code_simp
  have r2: "process_campaign post dry reg underscore_campaign (fresh_state [other_batch]) =
       Inr \<lparr>jobs_batch = [other_batch], created = 0, skipped = 1,
            trace = [Console (LogChecking ''A_B (GMaps)'' 2), Console (LogSkipExisting 1)]\<rparr>"
    by (simp add: process_campaign_existing fresh_state_def c2) (simp add: underscore_campaign_def)
  from p1 c1 r1 p2 c2 r2 show ?thesis by blast
qed

text \<open>
  Claim C7. A campaign without resolved targets is skipped: the run goes on to the next
  campaign from a state in which only the skipped counter and the console lines have
  changed; no request is sent, the tracker table and the created counter are untouched.
\<close>

theorem zero_targets_skipped:
  assumes "resolve_cities reg (campaign_id c) = []"
  shows "process_campaign post dry reg c st =
           Inr (st\<lparr>skipped := skipped st + 1,
                  trace := trace st @
                    [Console (LogChecking (campaign_name c) (campaign_id c)),
                     Console (if 0 < existing_cnt (jobs_batch st) c
                              then LogSkipExisting (existing_cnt (jobs_batch st) c)
                              else LogSkipNoCities)]\<rparr>)
         \<and> run_campaigns post dry reg (c # cs) st =
             run_campaigns post dry reg cs
               (st\<lparr>skipped := skipped st + 1,
                  trace := trace st @
                    [Console (LogChecking (campaign_name c) (campaign_id c)),
                     Console (if 0 < existing_cnt (jobs_batch st) c
                              then LogSkipExisting (existing_cnt (jobs_batch st) c)
                              else LogSkipNoCities)]\<rparr>)"
  using assms by (simp add: process_campaign_no_targets)

theorem zero_targets_skipped_witness:
  "process_campaign sample_dashboard False no_city_registry acme (fresh_state []) =
     Inr \<lparr>jobs_batch = [], created = 0, skipped = 1,
          trace = [Console (LogChecking ''Acme (GMaps)'' 1), Console LogSkipNoCities]\<rparr>
   \<and> run_campaigns sample_dashboard False no_city_registry [acme] (fresh_state []) =
     Inr \<lparr>jobs_batch = [], created = 0, skipped = 1,
          trace = [Console (LogChecking ''Acme (GMaps)'' 1), Console LogSkipNoCities]\<rparr>"
proof -
  have "resolve_cities no_city_registry (campaign_id acme) = []"
    by (simp add: acme_def resolve_no_city_registry)
  from zero_targets_skipped[OF this, of sample_dashboard False "fresh_state []" "[]"]
  show ?thesis
    by (simp add: fresh_state_def acme_def existing_cnt_def)
qed

text \<open>
  Claim C5. A campaign without existing work, with targets and at most 2000 queries
  sends exactly one request, named by the campaign name and carrying all queries. If
  the request fails the run fails; otherwise the tracker table is the one the dashboard
  left, with no UPDATE and no pause, and the created counter grows by one.
\<close>

theorem single_part_submission:
  assumes "existing_cnt (jobs_batch st) c = 0"
    and "resolve_cities reg (campaign_id c) \<noteq> []"
    and "length (plan_queries (resolve_cities reg (campaign_id c))) \<le> 2000"
  shows "process_campaign post False reg c st =
     (let allCities = resolve_cities reg (campaign_id c);
          queries = plan_queries allCities;
          pl = \<lparr>p_name = campaign_name c, p_queries = queries, p_autoImport = True,
                p_targetStates = plan_states allCities, p_leadRecyclingCampaignId = campaign_id c\<rparr>;
          sent = trace st @
            [Console (LogChecking (campaign_name c) (campaign_id c)),
             Console (LogCities allCities),
             Console (LogPlan (length queries) 1 (plan_states allCities)),
             Post pl]
      in case post pl (jobs_batch st) of
           None \<Rightarrow> Inl (SubmissionFailed, st\<lparr>trace := sent\<rparr>)
         | Some (batchId, tbl) \<Rightarrow>
             Inr (st\<lparr>jobs_batch := tbl, created := created st + 1,
                    trace := sent @ [Console (LogCreated (campaign_name c) batchId (length queries))]\<rparr>))"
  using assms by (rule process_campaign_single_part)

theorem single_part_submission_witness:
  "\<exists>st'. process_campaign sample_dashboard False fallback_registry acme (fresh_state []) = Inr st'
     \<and> map p_name (posts_of (trace st')) = [''Acme (GMaps)'']
     \<and> updates_of (trace st') = []
     \<and> map jb_name (jobs_batch st') = [''Acme (GMaps)'']
     \<and> created st' = 1"
proof -
  have id: "campaign_id acme = 1"
    by (simp add: acme_def)
  have cnt: "existing_cnt (jobs_batch (fresh_state [])) acme = 0"
    by (simp add: fresh_state_def existing_cnt_def)
  have ne: "resolve_cities fallback_registry (campaign_id acme) \<noteq> []"
    by (simp add: id resolve_fallback_registry)
  have le: "length (plan_queries (resolve_cities fallback_registry (campaign_id acme))) \<le> 2000"
    by (simp add: id resolve_fallback_registry length_plan_queries length_CATEGORIES)
  show ?thesis
    unfolding single_part_submission[OF cnt ne le]
    by (simp add: Let_def sample_dashboard_def fresh_state_def acme_def)
qed

text \<open>
  Claim C4. For a campaign whose queries need more than one part, with a dashboard that
  adds a row per request, the requests are named "<campaign name> Part N", N counting
  from 1 in the order sent; the tracker table gains one row per part, each with
  \<open>campaign_name\<close> equal to the campaign name, and one UPDATE was issued per new row.
\<close>

theorem multi_part_names:
  assumes "inserts_batch post"
    and "existing_cnt (jobs_batch st) c = 0"
    and "1 < totalParts (length (plan_queries (resolve_cities reg (campaign_id c))))"
    and "process_campaign post False reg c st = Inr st'"
  shows "map p_name (posts_of (trace st')) =
           map p_name (posts_of (trace st)) @
             map (\<lambda>i. campaign_name c @ '' Part '' @ show_nat (i + 1))
               [0..<totalParts (length (plan_queries (resolve_cities reg (campaign_id c))))]
         \<and> (\<exists>rows. jobs_batch st' = jobs_batch st @ rows
               \<and> length rows = totalParts (length (plan_queries (resolve_cities reg (campaign_id c))))
               \<and> (\<forall>row\<in>set rows. jb_campaign_name row = Some (campaign_name c))
               \<and> updates_of (trace st') =
                   updates_of (trace st) @ map (\<lambda>row. (campaign_name c, jb_batch_id row)) rows)
         \<and> created st' =
             created st + totalParts (length (plan_queries (resolve_cities reg (campaign_id c))))"
proof -
  let ?cities = "resolve_cities reg (campaign_id c)"
  let ?qs = "plan_queries ?cities"
  let ?parts = "totalParts (length ?qs)"
  let ?st3 = "st\<lparr>trace := trace st @
          [Console (LogChecking (campaign_name c) (campaign_id c)),
           Console (LogCities ?cities),
           Console (LogPlan (length ?qs) ?parts (plan_states ?cities))]\<rparr>"
  have "?cities \<noteq> []"
  proof
    assume "?cities = []"
    then have "?parts = 0" by (simp add: plan_queries_concat totalParts_zero)
    with assms(3) show False by simp
  qed
  with assms(2) have "process_campaign post False reg c st =
      submit_parts post c ?qs (plan_states ?cities) ?parts 0 ?st3"
    by (rule process_campaign_submit)
  with assms(4) have "submit_parts post c ?qs (plan_states ?cities) ?parts 0 ?st3 = Inr st'"
    by simp
  from submit_parts_contract[OF assms(1) this] obtain rows
    where rs: "jobs_batch st' = jobs_batch ?st3 @ rows" "length rows = ?parts - 0"
        "\<forall>row\<in>set rows. jb_lead_recycling_campaign_id row = Some (campaign_id c)
             \<and> (1 < ?parts \<longrightarrow> jb_campaign_name row = Some (campaign_name c))"
        "created st' = created ?st3 + (?parts - 0)"
        "posts_of (trace st') =
           posts_of (trace ?st3) @ map (make_payload c ?qs (plan_states ?cities) ?parts) [0..<?parts]"
        "updates_of (trace st') =
           updates_of (trace ?st3) @
             (if 1 < ?parts then map (\<lambda>row. (campaign_name c, jb_batch_id row)) rows else [])"
    by blast
  have names: "map p_name (posts_of (trace st')) =
           map p_name (posts_of (trace st)) @
             map (\<lambda>i. campaign_name c @ '' Part '' @ show_nat (i + 1)) [0..<?parts]"
    using rs(5) batchName_parts[OF assms(3), of c ?qs "plan_states ?cities"] by simp
  have rows: "jobs_batch st' = jobs_batch st @ rows \<and> length rows = ?parts
      \<and> (\<forall>row\<in>set rows. jb_campaign_name row = Some (campaign_name c))
      \<and> updates_of (trace st') =
           updates_of (trace st) @ map (\<lambda>row. (campaign_name c, jb_batch_id row)) rows"
    using rs(1,2,3,6) assms(3) by simp
  have "created st' = created st + ?parts"
    using rs(4) by simp
  with names rows show ?thesis by blast
qed

theorem multi_part_names_witness:
  "\<exists>st'. process_campaign sample_dashboard False many_city_registry acme (fresh_state []) = Inr st'
     \<and> map p_name (posts_of (trace st')) = [''Acme (GMaps) Part 1'', ''Acme (GMaps) Part 2'', ''Acme (GMaps) Part 3'']
     \<and> map jb_campaign_name (jobs_batch st') = [Some ''Acme (GMaps)'', Some ''Acme (GMaps)'', Some ''Acme (GMaps)'']
     \<and> created st' = 3"
proof -
  let ?cities = "resolve_cities many_city_registry (campaign_id acme)"
  have id: "campaign_id acme = 1" and nm: "campaign_name acme = ''Acme (GMaps)''"
    by (simp_all add: acme_def)
  have cnt: "existing_cnt (jobs_batch (fresh_state [])) acme = 0"
    by (simp add: fresh_state_def existing_cnt_def)
  have len: "length (plan_queries ?cities) = 4642"
    by (simp add: id length_plan_queries many_cities length_CATEGORIES)
  have parts: "totalParts (length (plan_queries ?cities)) = 3"
    by (simp add: len totalParts_div)
  then have many: "1 < totalParts (length (plan_queries ?cities))"
    by simp
  have ne: "?cities \<noteq> []"
    using many_cities by (auto simp: id)
  let ?st3 = "(fresh_state [])\<lparr>trace := trace (fresh_state []) @
          [Console (LogChecking (campaign_name acme) (campaign_id acme)),
           Console (LogCities ?cities),
           Console (LogPlan (length (plan_queries ?cities))
             (totalParts (length (plan_queries ?cities))) (plan_states ?cities))]\<rparr>"
  have unfold: "process_campaign sample_dashboard False many_city_registry acme (fresh_state []) =
      submit_parts sample_dashboard acme (plan_queries ?cities) (plan_states ?cities)
       (totalParts (length (plan_queries ?cities))) 0 ?st3"
    using cnt ne by (rule process_campaign_submit)
  have "\<exists>st'. submit_parts sample_dashboard acme (plan_queries ?cities) (plan_states ?cities)
       (totalParts (length (plan_queries ?cities))) 0 ?st3 = Inr st'"
    by (rule submit_parts_succeeds) (rule sample_dashboard_total)
  then obtain st' where "submit_parts sample_dashboard acme (plan_queries ?cities) (plan_states ?cities)
       (totalParts (length (plan_queries ?cities))) 0 ?st3 = Inr st'" ..
  with unfold have run: "process_campaign sample_dashboard False many_city_registry acme (fresh_state []) = Inr st'"
    by (rule trans)
  note inst = multi_part_names[OF sample_dashboard_inserts cnt many run]
  from inst have names: "map p_name (posts_of (trace st')) =
           map p_name (posts_of (trace (fresh_state []))) @
             map (\<lambda>i. campaign_name acme @ '' Part '' @ show_nat (i + 1))
               [0..<totalParts (length (plan_queries ?cities))]"
    by (rule conjunct1)
  from inst have "\<exists>rows. jobs_batch st' = jobs_batch (fresh_state []) @ rows
               \<and> length rows = totalParts (length (plan_queries ?cities))
               \<and> (\<forall>row\<in>set rows. jb_campaign_name row = Some (campaign_name acme))
               \<and> updates_of (trace st') =
                   updates_of (trace (fresh_state [])) @ map (\<lambda>row. (campaign_name acme, jb_batch_id row)) rows"
    by (rule conjunct2[THEN conjunct1])
  then obtain rows where all: "jobs_batch st' = jobs_batch (fresh_state []) @ rows
               \<and> length rows = totalParts (length (plan_queries ?cities))
               \<and> (\<forall>row\<in>set rows. jb_campaign_name row = Some (campaign_name acme))
               \<and> updates_of (trace st') =
                   updates_of (trace (fresh_state [])) @ map (\<lambda>row. (campaign_name acme, jb_batch_id row)) rows" ..
  from all have rows1: "jobs_batch st' = jobs_batch (fresh_state []) @ rows"
    by (rule conjunct1)
  from all have rows2: "length rows = totalParts (length (plan_queries ?cities))"
    by (rule conjunct2[THEN conjunct1])
  from all have rows3: "\<forall>row\<in>set rows. jb_campaign_name row = Some (campaign_name acme)"
    by (rule conjunct2[THEN conjunct2, THEN conjunct1])
  from inst have cr: "created st' = created (fresh_state []) + totalParts (length (plan_queries ?cities))"
    by (rule conjunct2[THEN conjunct2])
  have n: "map p_name (posts_of (trace st')) = [''Acme (GMaps) Part 1'', ''Acme (GMaps) Part 2'', ''Acme (GMaps) Part 3'']"
    using names show_nat_1_2_3 by (simp add: parts fresh_state_def nm upt3)
  have "length rows = 3" using rows2 parts by simp
  then obtain r1 r2 r3 where "rows = [r1, r2, r3]"
    by (auto simp: length_Suc_conv numeral_3_eq_3)
  with rows1 rows3 have t: "map jb_campaign_name (jobs_batch st') = [Some ''Acme (GMaps)'', Some ''Acme (GMaps)'', Some ''Acme (GMaps)'']"
    by (simp add: fresh_state_def nm)
  have "created st' = 3"
    using cr parts by (simp add: fresh_state_def)
  with run n t show ?thesis
    by (intro exI[of _ st'] conjI)
qed

subsection \<open>The run\<close>

lemma run_campaigns_dry:
  "run_campaigns post True reg cs st =
     Inr (st\<lparr>skipped := skipped st + length (filter (planned_skip reg (jobs_batch st)) cs),
            trace := trace st @
              map Console (concat (map (planning_report reg (jobs_batch st)) cs))\<rparr>)"
proof (induction cs arbitrary: st)
  case Nil
  then show ?case by simp
next
  case (Cons c cs)
  show ?case
    by (simp add: process_campaign_dry Cons.IH)
qed

lemma posts_of_console: "posts_of (map Console ls) = []"
  by (induction ls) simp_all

lemma updates_of_console: "updates_of (map Console ls) = []"
  by (induction ls) simp_all

lemma run_dry:
  assumes "DRY_RUN e" and "\<not> falsy (RECYCLING_DB_URL e)" and "\<not> falsy (GMAPS_DB_URL e)"
  shows "run e post reg tbl =
     Inr \<lparr>jobs_batch = tbl, created = 0,
          skipped = length (filter (planned_skip reg tbl) (select_campaigns reg)),
          trace = map Console
            (LogFound (length (select_campaigns reg)) #
             concat (map (planning_report reg tbl) (select_campaigns reg)) @
             [LogDone 0 (length (filter (planned_skip reg tbl) (select_campaigns reg)))])\<rparr>"
  using assms by (simp add: run_def Let_def run_campaigns_dry emit_def)

lemma select_fallback: "select_campaigns fallback_registry = [acme]"
  by code_simp

lemma snd_build_queries:
  "snd (build_queries allCities (queries, ts)) =
     fold (\<lambda>city acc. set_add acc (state_code city)) allCities ts"
  by (induction allCities arbitrary: queries ts) (simp_all add: Let_def)

lemma plan_states_fold:
  "plan_states allCities = fold (\<lambda>city acc. set_add acc (state_code city)) allCities []"
  by (simp add: plan_states_def snd_build_queries)

text \<open>
  Claim C9. In dry-run mode the run returns; its console lines are those of planning
  every campaign against the unchanged tracker table (the check, the resolved cities,
  the number of queries and of parts), no request is sent and no UPDATE issued, the
  tracker table is as before, and the created counter is 0.
\<close>

theorem dry_run_plans_only:
  assumes "DRY_RUN e" and "\<not> falsy (RECYCLING_DB_URL e)" and "\<not> falsy (GMAPS_DB_URL e)"
  shows "\<exists>st. run e post reg tbl = Inr st
     \<and> jobs_batch st = tbl \<and> created st = 0
     \<and> posts_of (trace st) = [] \<and> updates_of (trace st) = []
     \<and> skipped st = length (filter (planned_skip reg tbl) (select_campaigns reg))
     \<and> trace st = map Console
            (LogFound (length (select_campaigns reg)) #
             concat (map (planning_report reg tbl) (select_campaigns reg)) @
             [LogDone 0 (length (filter (planned_skip reg tbl) (select_campaigns reg)))])"
proof -
  let ?n = "length (filter (planned_skip reg tbl) (select_campaigns reg))"
  let ?ls = "LogFound (length (select_campaigns reg)) #
             concat (map (planning_report reg tbl) (select_campaigns reg)) @ [LogDone 0 ?n]"
  let ?st = "\<lparr>jobs_batch = tbl, created = 0, skipped = ?n, trace = map Console ?ls\<rparr>"
  have "run e post reg tbl = Inr ?st"
    using assms by (rule run_dry)
  moreover have "jobs_batch ?st = tbl" and "created ?st = 0" and "skipped ?st = ?n"
    and "trace ?st = map Console ?ls"
    by simp_all
  moreover have "posts_of (trace ?st) = []" and "updates_of (trace ?st) = []"
    by (simp_all only: run_state.select_convs posts_of_console updates_of_console)
  ultimately show ?thesis
    by (intro exI[of _ ?st] conjI)
qed

theorem dry_run_plans_only_witness:
  "\<exists>st. run dry_env sample_dashboard fallback_registry [] = Inr st
     \<and> jobs_batch st = [] \<and> created st = 0 \<and> skipped st = 0
     \<and> posts_of (trace st) = []
     \<and> trace st = map Console
          [LogFound 1, LogChecking ''Acme (GMaps)'' 1,
           LogCities [\<lparr>city_name = ''Austin'', state_code = ''TX''\<rparr>,
                      \<lparr>city_name = ''Dallas'', state_code = ''TX''\<rparr>],
           LogPlan 422 1 [''TX''], LogDryRun, LogDone 0 0]"
proof -
  have e: "DRY_RUN dry_env" "\<not> falsy (RECYCLING_DB_URL dry_env)" "\<not> falsy (GMAPS_DB_URL dry_env)"
    by (simp_all add: dry_env_def DRY_RUN_def falsy_def)
  have skip: "\<not> planned_skip fallback_registry [] acme"
    by (simp add: planned_skip_def existing_cnt_def acme_def resolve_fallback_registry)
  have report: "planning_report fallback_registry [] acme =
      [LogChecking ''Acme (GMaps)'' 1,
       LogCities [\<lparr>city_name = ''Austin'', state_code = ''TX''\<rparr>,
                  \<lparr>city_name = ''Dallas'', state_code = ''TX''\<rparr>],
       LogPlan 422 1 [''TX''], LogDryRun]"
    by (simp add: planning_report_def existing_cnt_def acme_def resolve_fallback_registry Let_def
        length_plan_queries length_CATEGORIES totalParts_div plan_states_fold set_add_def)
  from dry_run_plans_only[OF e, of sample_dashboard fallback_registry "[]"]
  obtain st where st: "run dry_env sample_dashboard fallback_registry [] = Inr st
     \<and> jobs_batch st = [] \<and> created st = 0
     \<and> posts_of (trace st) = [] \<and> updates_of (trace st) = []
     \<and> skipped st = length (filter (planned_skip fallback_registry []) (select_campaigns fallback_registry))
     \<and> trace st = map Console
            (LogFound (length (select_campaigns fallback_registry)) #
             concat (map (planning_report fallback_registry []) (select_campaigns fallback_registry)) @
             [LogDone 0 (length (filter (planned_skip fallback_registry []) (select_campaigns fallback_registry)))])" ..
  then have "skipped st = 0"
    by (simp add: select_fallback skip)
  moreover from st have "trace st = map Console
          [LogFound 1, LogChecking ''Acme (GMaps)'' 1,
           LogCities [\<lparr>city_name = ''Austin'', state_code = ''TX''\<rparr>,
                      \<lparr>city_name = ''Dallas'', state_code = ''TX''\<rparr>],
           LogPlan 422 1 [''TX''], LogDryRun, LogDone 0 0]"
    by (simp add: select_fallback skip report)
  ultimately show ?thesis
    using st by (intro exI[of _ st] conjI) simp_all
qed

lemma existing_cnt_append:
  "existing_cnt (tbl @ rows) c = existing_cnt tbl c + existing_cnt rows c"
  by (simp add: existing_cnt_def)

lemma existing_cnt_linked:
  assumes "row \<in> set rows" and "jb_lead_recycling_campaign_id row = Some (campaign_id c)"
  shows "0 < existing_cnt rows c"
proof -
  from assms have "row \<in> set (filter (existing_where c) rows)"
    by (simp add: existing_where_def)
  then show ?thesis
    unfolding existing_cnt_def by (rule length_pos_if_in_set)
qed

lemma planned_skip_append:
  "planned_skip reg tbl c \<Longrightarrow> planned_skip reg (tbl @ rows) c"
  by (auto simp: planned_skip_def existing_cnt_append)

lemma totalParts_pos: "0 < n \<Longrightarrow> 0 < totalParts n"
  by (simp add: totalParts_div)

lemma process_campaign_grows:
  assumes "inserts_batch post" and "process_campaign post False reg c st = Inr st'"
  shows "(\<exists>rows. jobs_batch st' = jobs_batch st @ rows) \<and> planned_skip reg (jobs_batch st') c"
proof (cases "planned_skip reg (jobs_batch st) c")
  case True
  then have "jobs_batch st' = jobs_batch st"
    using assms(2)
    by (auto simp: planned_skip_def process_campaign_existing process_campaign_no_targets)
  with True show ?thesis by simp
next
  case False
  let ?cities = "resolve_cities reg (campaign_id c)"
  let ?qs = "plan_queries ?cities"
  from False have cnt: "existing_cnt (jobs_batch st) c = 0" and ne: "?cities \<noteq> []"
    by (simp_all add: planned_skip_def)
  let ?st3 = "st\<lparr>trace := trace st @
          [Console (LogChecking (campaign_name c) (campaign_id c)),
           Console (LogCities ?cities),
           Console (LogPlan (length ?qs) (totalParts (length ?qs)) (plan_states ?cities))]\<rparr>"
  from assms(2)
  have "submit_parts post c ?qs (plan_states ?cities) (totalParts (length ?qs)) 0 ?st3 = Inr st'"
    unfolding process_campaign_submit[OF cnt ne] .
  from submit_parts_contract[OF assms(1) this] obtain rows
    where tbl0: "jobs_batch st' = jobs_batch ?st3 @ rows"
      and len: "length rows = totalParts (length ?qs) - 0"
      and linked: "\<forall>row\<in>set rows. jb_lead_recycling_campaign_id row = Some (campaign_id c)
             \<and> (1 < totalParts (length ?qs) \<longrightarrow> jb_campaign_name row = Some (campaign_name c))"
    by blast
  from tbl0 have tbl: "jobs_batch st' = jobs_batch st @ rows"
    by simp
  have "0 < totalParts (length ?qs)"
    using ne by (intro totalParts_pos plan_queries_nonempty)
  with len obtain row where "row \<in> set rows"
    by (cases rows) auto
  with linked have "0 < existing_cnt rows c"
    by (intro existing_cnt_linked[of row]) auto
  with tbl show ?thesis
    by (auto simp: planned_skip_def existing_cnt_append)
qed

lemma run_campaigns_grows:
  "inserts_batch post \<Longrightarrow> run_campaigns post False reg cs st = Inr st' \<Longrightarrow>
     (\<exists>rows. jobs_batch st' = jobs_batch st @ rows)
     \<and> (\<forall>c\<in>set cs. planned_skip reg (jobs_batch st') c)"
proof (induction cs arbitrary: st)
  case Nil
  then show ?case by simp
next
  case (Cons c cs)
  from Cons.prems(2) obtain st1
    where s1: "process_campaign post False reg c st = Inr st1"
      and rest: "run_campaigns post False reg cs st1 = Inr st'"
    by (auto split: sum.splits)
  from process_campaign_grows[OF Cons.prems(1) s1] obtain rows1
    where g1: "jobs_batch st1 = jobs_batch st @ rows1"
      and k1: "planned_skip reg (jobs_batch st1) c"
    by blast
  from Cons.IH[OF Cons.prems(1) rest] obtain rows
    where g: "jobs_batch st' = jobs_batch st1 @ rows"
      and k: "\<forall>c\<in>set cs. planned_skip reg (jobs_batch st') c"
    by blast
  from k1 g have "planned_skip reg (jobs_batch st') c"
    by (simp add: planned_skip_append)
  with g g1 k show ?case by simp
qed

lemma process_campaign_skip:
  assumes "planned_skip reg (jobs_batch st) c"
  shows "\<exists>st1. process_campaign post dry reg c st = Inr st1
     \<and> jobs_batch st1 = jobs_batch st \<and> created st1 = created st
     \<and> skipped st1 = skipped st + 1
     \<and> posts_of (trace st1) = posts_of (trace st)
     \<and> updates_of (trace st1) = updates_of (trace st)"
proof (cases "0 < existing_cnt (jobs_batch st) c")
  case True
  then show ?thesis by (simp add: process_campaign_existing)
next
  case False
  with assms have "resolve_cities reg (campaign_id c) = []"
    by (simp add: planned_skip_def)
  then show ?thesis by (simp add: process_campaign_no_targets)
qed

lemma run_campaigns_quiet:
  "\<forall>c\<in>set cs. planned_skip reg (jobs_batch st) c \<Longrightarrow>
     \<exists>st'. run_campaigns post dry reg cs st = Inr st'
       \<and> jobs_batch st' = jobs_batch st \<and> created st' = created st
       \<and> skipped st' = skipped st + length cs
       \<and> posts_of (trace st') = posts_of (trace st)
       \<and> updates_of (trace st') = updates_of (trace st)"
proof (induction cs arbitrary: st)
  case Nil
  then show ?case by simp
next
  case (Cons c cs)
  from Cons.prems have "planned_skip reg (jobs_batch st) c"
    by simp
  from process_campaign_skip[OF this, of post dry] obtain st1
    where s1: "process_campaign post dry reg c st = Inr st1"
      and f1: "jobs_batch st1 = jobs_batch st" "created st1 = created st"
        "skipped st1 = skipped st + 1"
        "posts_of (trace st1) = posts_of (trace st)" "updates_of (trace st1) = updates_of (trace st)"
    by blast
  from Cons.prems f1(1) have "\<forall>c\<in>set cs. planned_skip reg (jobs_batch st1) c"
    by simp
  from Cons.IH[OF this] obtain st'
    where "run_campaigns post dry reg cs st1 = Inr st'"
      and "jobs_batch st' = jobs_batch st1" "created st' = created st1"
        "skipped st' = skipped st1 + length cs"
        "posts_of (trace st') = posts_of (trace st1)" "updates_of (trace st') = updates_of (trace st1)"
    by blast
  with s1 f1 show ?case by simp
qed

text \<open>
  Claim C6. With a dashboard that adds a linked row per request, a run that has returned
  can be repeated on the tracker table it left: the second run returns, creates
  nothing, sends nothing and leaves the table as it is. Outside dry-run mode every
  campaign is skipped by the second run, because it has existing work by then or has no
  targets.
\<close>

theorem rerun_creates_nothing:
  assumes "inserts_batch post" and "run e post reg tbl = Inr st1"
  shows "\<exists>st2. run e post reg (jobs_batch st1) = Inr st2
     \<and> created st2 = 0 \<and> jobs_batch st2 = jobs_batch st1
     \<and> posts_of (trace st2) = [] \<and> updates_of (trace st2) = []
     \<and> (\<not> DRY_RUN e \<longrightarrow>
          skipped st2 = length (select_campaigns reg)
          \<and> (\<forall>c\<in>set (select_campaigns reg).
                0 < existing_cnt (jobs_batch st1) c \<or> resolve_cities reg (campaign_id c) = []))"
proof -
  let ?cs = "select_campaigns reg"
  from assms(2) have env: "\<not> falsy (RECYCLING_DB_URL e)" "\<not> falsy (GMAPS_DB_URL e)"
    by (auto simp: run_def Let_def split: if_splits)
  show ?thesis
  proof (cases "DRY_RUN e")
    case True
    let ?n = "length (filter (planned_skip reg tbl) ?cs)"
    let ?ls = "LogFound (length ?cs) # concat (map (planning_report reg tbl) ?cs) @ [LogDone 0 ?n]"
    let ?st = "\<lparr>jobs_batch = tbl, created = 0, skipped = ?n, trace = map Console ?ls\<rparr>"
    have dry: "run e post reg tbl = Inr ?st"
      using True env by (rule run_dry)
    with assms(2) have st1: "st1 = ?st"
      by simp
    have "run e post reg (jobs_batch st1) = Inr ?st"
      using dry by (simp add: st1)
    moreover have "created ?st = 0" and "jobs_batch ?st = jobs_batch st1"
      by (simp_all add: st1)
    moreover have "posts_of (trace ?st) = []" and "updates_of (trace ?st) = []"
      by (simp_all only: run_state.select_convs posts_of_console updates_of_console)
    ultimately show ?thesis
      using True by (intro exI[of _ ?st] conjI) simp_all
  next
    case False
    let ?init = "\<lambda>t. emit (Console (LogFound (length ?cs)))
                   \<lparr>jobs_batch = t, created = 0, skipped = 0, trace = []\<rparr>"
    from assms(2) env False obtain s
      where loop: "run_campaigns post False reg ?cs (?init tbl) = Inr s"
        and st1: "st1 = emit (Console (LogDone (created s) (skipped s))) s"
      by (auto simp: run_def Let_def split: sum.splits)
    have tbl1: "jobs_batch st1 = jobs_batch s"
      by (simp add: st1 emit_def)
    from run_campaigns_grows[OF assms(1) loop]
    have settled: "\<forall>c\<in>set ?cs. planned_skip reg (jobs_batch st1) c"
      by (simp add: tbl1)
    have "jobs_batch (?init (jobs_batch st1)) = jobs_batch st1"
      by (simp add: emit_def)
    with settled have "\<forall>c\<in>set ?cs. planned_skip reg (jobs_batch (?init (jobs_batch st1))) c"
      by simp
    from run_campaigns_quiet[OF this, of post False] obtain s2
      where loop2: "run_campaigns post False reg ?cs (?init (jobs_batch st1)) = Inr s2"
        and f: "jobs_batch s2 = jobs_batch (?init (jobs_batch st1))"
          "created s2 = created (?init (jobs_batch st1))"
          "skipped s2 = skipped (?init (jobs_batch st1)) + length ?cs"
          "posts_of (trace s2) = posts_of (trace (?init (jobs_batch st1)))"
          "updates_of (trace s2) = updates_of (trace (?init (jobs_batch st1)))"
      by blast
    let ?st2 = "emit (Console (LogDone (created s2) (skipped s2))) s2"
    have "run e post reg (jobs_batch st1) = Inr ?st2"
      using env False loop2 by (simp add: run_def Let_def)
    moreover have "created ?st2 = 0" and "jobs_batch ?st2 = jobs_batch st1"
      and "skipped ?st2 = length ?cs"
      and "posts_of (trace ?st2) = []" and "updates_of (trace ?st2) = []"
      using f by (simp_all add: emit_def)
    moreover have "\<forall>c\<in>set ?cs.
        0 < existing_cnt (jobs_batch st1) c \<or> resolve_cities reg (campaign_id c) = []"
      using settled by (simp add: planned_skip_def)
    ultimately show ?thesis
      by (intro exI[of _ ?st2] conjI impI)
  qed
qed

theorem rerun_creates_nothing_witness:
  "\<exists>st1 st2. run ok_env sample_dashboard fallback_registry [] = Inr st1
     \<and> created st1 = 1 \<and> map jb_name (jobs_batch st1) = [''Acme (GMaps)'']
     \<and> run ok_env sample_dashboard fallback_registry (jobs_batch st1) = Inr st2
     \<and> created st2 = 0 \<and> skipped st2 = 1 \<and> jobs_batch st2 = jobs_batch st1"
proof -
  let ?st = "emit (Console (LogFound (length [acme])))
               \<lparr>jobs_batch = [], created = 0, skipped = 0, trace = []\<rparr>"
  have id: "campaign_id acme = 1"
    by (simp add: acme_def)
  have cnt: "existing_cnt (jobs_batch ?st) acme = 0"
    by (simp add: emit_def existing_cnt_def)
  have ne: "resolve_cities fallback_registry (campaign_id acme) \<noteq> []"
    by (simp add: id resolve_fallback_registry)
  have le: "length (plan_queries (resolve_cities fallback_registry (campaign_id acme))) \<le> 2000"
    by (simp add: id resolve_fallback_registry length_plan_queries length_CATEGORIES)
  have env: "\<not> falsy (RECYCLING_DB_URL ok_env)" "\<not> falsy (GMAPS_DB_URL ok_env)" "\<not> DRY_RUN ok_env"
    by (simp_all add: ok_env_def falsy_def DRY_RUN_def)
  have "\<exists>s. process_campaign sample_dashboard False fallback_registry acme ?st = Inr s
      \<and> created s = 1 \<and> map jb_name (jobs_batch s) = [''Acme (GMaps)'']"
    unfolding process_campaign_single_part[OF cnt ne le]
    by (simp add: Let_def sample_dashboard_def emit_def acme_def)
  then obtain s where pc: "process_campaign sample_dashboard False fallback_registry acme ?st = Inr s"
    and cs: "created s = 1" and ns: "map jb_name (jobs_batch s) = [''Acme (GMaps)'']"
    by (elim exE conjE)
  have "run ok_env sample_dashboard fallback_registry [] =
      (case run_campaigns sample_dashboard False fallback_registry [acme] ?st of
         Inl err \<Rightarrow> Inl err
       | Inr st \<Rightarrow> Inr (emit (Console (LogDone (created st) (skipped st))) st))"
    using env by (simp add: run_def Let_def select_fallback)
  also have "run_campaigns sample_dashboard False fallback_registry [acme] ?st = Inr s"
    using pc by simp
  finally have first: "run ok_env sample_dashboard fallback_registry [] =
      Inr (emit (Console (LogDone (created s) (skipped s))) s)"
    by simp
  define st1 where "st1 = emit (Console (LogDone (created s) (skipped s))) s"
  have c1: "created st1 = 1" and n1: "map jb_name (jobs_batch st1) = [''Acme (GMaps)'']"
    using cs ns by (simp_all add: st1_def emit_def)
  from first have first: "run ok_env sample_dashboard fallback_registry [] = Inr st1"
    by (simp add: st1_def)
  from rerun_creates_nothing[OF sample_dashboard_inserts first] obtain st2
    where second: "run ok_env sample_dashboard fallback_registry (jobs_batch st1) = Inr st2
     \<and> created st2 = 0 \<and> jobs_batch st2 = jobs_batch st1
     \<and> posts_of (trace st2) = [] \<and> updates_of (trace st2) = []
     \<and> (\<not> DRY_RUN ok_env \<longrightarrow>
          skipped st2 = length (select_campaigns fallback_registry)
          \<and> (\<forall>c\<in>set (select_campaigns fallback_registry).
                0 < existing_cnt (jobs_batch st1) c
                \<or> resolve_cities fallback_registry (campaign_id c) = []))" ..
  with env(3) have "skipped st2 = 1"
    by (simp add: select_fallback)
  with first c1 n1 second show ?thesis
    by (intro exI[of _ st1] exI[of _ st2] conjI) simp_all
qed

subsection \<open>The campaign reader, the region codes and the configuration check\<close>

lemma lower_gmaps: "map lower_char ''%(GMaps)%'' = ''%(gmaps)%''"
  by code_simp

lemma ilike_gmaps: "ilike n ''%(GMaps)%'' \<longleftrightarrow> sublist ''(gmaps)'' (map lower_char n)"
proof -
  have "plain ''(gmaps)''" by (simp add: plain_def)
  from like_match_contains[OF this, of "map lower_char n"] show ?thesis
    unfolding ilike_def lower_gmaps by simp
qed

text \<open>
  The campaigns of a run are the active campaigns whose name contains \<open>(gmaps)\<close> in any
  letter case, in ascending order of id.
\<close>

theorem campaigns_active_marked_sorted:
  "sorted (map campaign_id (select_campaigns reg))
   \<and> set (select_campaigns reg) =
       {\<lparr>campaign_id = ic_id ic, campaign_name = ic_campaign_name ic\<rparr> | ic.
          ic \<in> set (instant_campaigns reg) \<and> ic_is_active ic
          \<and> sublist ''(gmaps)'' (map lower_char (ic_campaign_name ic))}"
proof -
  have "map campaign_id (select_campaigns reg) =
      map ic_id (sort_key ic_id
         (filter (\<lambda>ic. ilike (ic_campaign_name ic) ''%(GMaps)%'' \<and> ic_is_active ic)
           (instant_campaigns reg)))"
    by (simp add: select_campaigns_def comp_def)
  then have "sorted (map campaign_id (select_campaigns reg))"
    by (simp only: sorted_sort_key)
  moreover have "set (select_campaigns reg) =
       {\<lparr>campaign_id = ic_id ic, campaign_name = ic_campaign_name ic\<rparr> | ic.
          ic \<in> set (instant_campaigns reg) \<and> ic_is_active ic
          \<and> sublist ''(gmaps)'' (map lower_char (ic_campaign_name ic))}"
    by (auto simp: select_campaigns_def ilike_gmaps)
  ultimately show ?thesis
    by (intro conjI)
qed

theorem campaigns_active_marked_sorted_witness:
  "select_campaigns mixed_registry =
     [\<lparr>campaign_id = 1, campaign_name = ''Acme (GMaps)''\<rparr>,
      \<lparr>campaign_id = 3, campaign_name = ''Zed (gmaps)''\<rparr>]
   \<and> sorted (map campaign_id (select_campaigns mixed_registry))"
proof -
  have "select_campaigns mixed_registry =
     [\<lparr>campaign_id = 1, campaign_name = ''Acme (GMaps)''\<rparr>,
      \<lparr>campaign_id = 3, campaign_name = ''Zed (gmaps)''\<rparr>]"
    by code_simp
  moreover from campaigns_active_marked_sorted[of mixed_registry]
  have "sorted (map campaign_id (select_campaigns mixed_registry))"
    by (rule conjunct1)
  ultimately show ?thesis
    by (intro conjI)
qed

lemma fold_set_add:
  "distinct ts \<Longrightarrow>
     distinct (fold (\<lambda>city acc. set_add acc (state_code city)) allCities ts)
     \<and> set (fold (\<lambda>city acc. set_add acc (state_code city)) allCities ts) =
         set ts \<union> state_code ` set allCities"
proof (induction allCities arbitrary: ts)
  case Nil
  then show ?case by simp
next
  case (Cons city rest)
  from Cons.prems have "distinct (set_add ts (state_code city))"
    by (simp add: set_add_def)
  from Cons.IH[OF this] show ?case
    by (auto simp: set_add_def split: if_splits)
qed

text \<open>The region codes sent with a request are those of the targets, each once.\<close>

theorem target_states_distinct:
  "distinct (plan_states allCities) \<and> set (plan_states allCities) = state_code ` set allCities"
  using fold_set_add[of "[]" allCities] by (simp add: plan_states_fold)

text \<open>
  Without one of the two connection strings the run fails before it reads a store or
  prints a line.
\<close>

theorem missing_env_fatal:
  assumes "falsy (RECYCLING_DB_URL e) \<or> falsy (GMAPS_DB_URL e)"
  shows "run e post reg tbl =
           Inl (MissingEnv, \<lparr>jobs_batch = tbl, created = 0, skipped = 0, trace = []\<rparr>)"
  using assms by (simp add: run_def Let_def)

theorem missing_env_fatal_witness:
  "run unset_env sample_dashboard fallback_registry [] =
     Inl (MissingEnv, \<lparr>jobs_batch = [], created = 0, skipped = 0, trace = []\<rparr>)"
proof -
  have "falsy (RECYCLING_DB_URL unset_env) \<or> falsy (GMAPS_DB_URL unset_env)"
    by (simp add: unset_env_def falsy_def)
  then show ?thesis
    by (rule missing_env_fatal)
qed

end
